theory Spec2Isabelle
  imports Main "HOL-Library.Word"
begin

section \<open>Decoupled look-back scan state (rocPRIM, lookback\_scan\_state.hpp)\<close>

text \<open>
  Block ids, block counts and the padding width are C++ \<open>unsigned int\<close>: 32-bit words
  whose arithmetic wraps. Arrays are lists of the allocated length; an access outside
  the allocation is the fault \<open>OutOfRange\<close> instead of an unspecified value.
  \<open>size_t\<close> quantities are natural numbers (the byte counts stay far below \<open>2 ^ 64\<close>).
\<close>

type_synonym uint = "32 word"

datatype prefix_flag = PREFIX_INVALID | PREFIX_EMPTY | PREFIX_PARTIAL | PREFIX_COMPLETE

datatype fault = OutOfRange | EmptyWarp

definition load :: "'x list \<Rightarrow> uint \<Rightarrow> fault + 'x" where
  "load xs i = (if unat i < length xs then Inr (xs ! unat i) else Inl OutOfRange)"

definition store :: "'x list \<Rightarrow> uint \<Rightarrow> 'x \<Rightarrow> fault + 'x list" where
  "store xs i v = (if unat i < length xs then Inr (xs[unat i := v]) else Inl OutOfRange)"

subsection \<open>\<open>lookback_scan_state<T, true>\<close>: flag and value in one word\<close>

text \<open>
  \<open>prefixes\<close> is the array of \<open>prefix_type { flag; value }\<close> words. The constant
  \<open>padding = warp_size()\<close> comes from intrinsics.hpp; it is the first parameter of every
  operation.
\<close>

record 'a lookback_scan_state_true =
  prefixes :: "(prefix_flag \<times> 'a) list"

text \<open>
  \<open>flag_type_\<close> is chosen by \<open>sizeof(T)\<close>: \<open>long long\<close>, \<open>int\<close>, \<open>short\<close>, else \<open>char\<close>.
  \<open>prefix_underlying_type\<close>, the word that is stored and loaded, is the vector of two
  \<open>flag_type_\<close>. \<open>prefix_type\<close> is \<open>{ flag_type_ flag; T value; }\<close>: its value lies inside
  the word when the flag and the value together are no longer than the word, that is
  for \<open>sizeof(T)\<close> 1, 2, 4 or 8. For any other size the word is two bytes, the flag and
  one more byte.
\<close>

definition sizeof_flag_type :: "nat \<Rightarrow> nat" where
  "sizeof_flag_type sizeof_T =
     (if sizeof_T = 8 then 8 else if sizeof_T = 4 then 4 else if sizeof_T = 2 then 2 else 1)"

definition sizeof_prefix_underlying_type :: "nat \<Rightarrow> nat" where
  "sizeof_prefix_underlying_type sizeof_T = 2 * sizeof_flag_type sizeof_T"

definition word_holds_value :: "nat \<Rightarrow> bool" where
  "word_holds_value sizeof_T =
     (sizeof_flag_type sizeof_T + sizeof_T \<le> sizeof_prefix_underlying_type sizeof_T)"

text \<open>
  \<open>initialize_prefix\<close> declares \<open>prefix\<close> without initialising it and assigns only its
  flag; the value component that reaches memory is whatever the register held. It is
  the parameter \<open>junk\<close>.
\<close>

definition initialize_prefix_true ::
  "uint \<Rightarrow> 'a \<Rightarrow> uint \<Rightarrow> uint \<Rightarrow> 'a lookback_scan_state_true
     \<Rightarrow> fault + 'a lookback_scan_state_true" where
  "initialize_prefix_true padding junk block_id number_of_blocks st =
     (case (if block_id < number_of_blocks
            then (case store (prefixes st) (padding + block_id) (PREFIX_EMPTY, junk) of
                    Inl e \<Rightarrow> Inl e
                  | Inr ps \<Rightarrow> Inr (st\<lparr>prefixes := ps\<rparr>))
            else Inr st) of
        Inl e \<Rightarrow> Inl e
      | Inr st1 \<Rightarrow>
          (if block_id < padding
           then (case store (prefixes st1) block_id (PREFIX_INVALID, junk) of
                   Inl e \<Rightarrow> Inl e
                 | Inr ps \<Rightarrow> Inr (st1\<lparr>prefixes := ps\<rparr>))
           else Inr st1))"

text \<open>
  \<open>set\<close> builds a \<open>prefix_type\<close> and stores its first \<open>sizeof(prefix_underlying_type)\<close>
  bytes. When the word holds the value, the entry is the flag and the value; otherwise
  the value does not reach memory and the rest of the entry is the parameter \<open>junk\<close>.
\<close>

definition set_true ::
  "nat \<Rightarrow> 'a \<Rightarrow> uint \<Rightarrow> uint \<Rightarrow> prefix_flag \<Rightarrow> 'a \<Rightarrow> 'a lookback_scan_state_true
     \<Rightarrow> fault + 'a lookback_scan_state_true" where
  "set_true sizeof_T junk padding block_id flag v st =
     (case store (prefixes st) (padding + block_id)
             (flag, if word_holds_value sizeof_T then v else junk) of
        Inl e \<Rightarrow> Inl e
      | Inr ps \<Rightarrow> Inr (st\<lparr>prefixes := ps\<rparr>))"

definition set_partial_true ::
  "nat \<Rightarrow> 'a \<Rightarrow> uint \<Rightarrow> uint \<Rightarrow> 'a \<Rightarrow> 'a lookback_scan_state_true
     \<Rightarrow> fault + 'a lookback_scan_state_true" where
  "set_partial_true sizeof_T junk padding block_id v st =
     set_true sizeof_T junk padding block_id PREFIX_PARTIAL v st"

definition set_complete_true ::
  "nat \<Rightarrow> 'a \<Rightarrow> uint \<Rightarrow> uint \<Rightarrow> 'a \<Rightarrow> 'a lookback_scan_state_true
     \<Rightarrow> fault + 'a lookback_scan_state_true" where
  "set_complete_true sizeof_T junk padding block_id v st =
     set_true sizeof_T junk padding block_id PREFIX_COMPLETE v st"

subsection \<open>\<open>lookback_scan_state<T, false>\<close>: a flag array and two value arrays\<close>

record 'a lookback_scan_state_false =
  prefixes_flags :: "prefix_flag list"
  prefixes_partial_values :: "'a list"
  prefixes_complete_values :: "'a list"

definition initialize_prefix_false ::
  "uint \<Rightarrow> uint \<Rightarrow> uint \<Rightarrow> 'a lookback_scan_state_false
     \<Rightarrow> fault + 'a lookback_scan_state_false" where
  "initialize_prefix_false padding block_id number_of_blocks st =
     (case (if block_id < number_of_blocks
            then (case store (prefixes_flags st) (padding + block_id) PREFIX_EMPTY of
                    Inl e \<Rightarrow> Inl e
                  | Inr fs \<Rightarrow> Inr (st\<lparr>prefixes_flags := fs\<rparr>))
            else Inr st) of
        Inl e \<Rightarrow> Inl e
      | Inr st1 \<Rightarrow>
          (if block_id < padding
           then (case store (prefixes_flags st1) block_id PREFIX_INVALID of
                   Inl e \<Rightarrow> Inl e
                 | Inr fs \<Rightarrow> Inr (st1\<lparr>prefixes_flags := fs\<rparr>))
           else Inr st1))"

text \<open>
  The volatile path is the one compiled
  (\<open>ROCPRIM_DETAIL_LOOKBACK_SCAN_STATE_USE_VOLATILE\<close> is defined). Volatile accesses and
  fences are the observable actions of these functions; they are recorded, in program
  order, in a trace that is threaded beside the memory.
\<close>

datatype region = Flags | Partial_values | Complete_values

datatype event =
    Store_volatile region uint
  | Load_volatile region uint
  | Memory_fence_device
  | Memory_fence_system



text \<open>
  \<open>get\<close> polls memory that other blocks write. The list argument holds the contents of
  memory at the successive iterations of the \<open>do ... while\<close> loop, the current one
  first; the value is read from the contents in which the flag was seen. \<open>None\<close>: the
  loop is still spinning when the list ends.
\<close>

fun get_false ::
  "uint \<Rightarrow> uint \<Rightarrow> 'a lookback_scan_state_false list \<Rightarrow> event list
     \<Rightarrow> (fault + (prefix_flag \<times> 'a) \<times> event list) option" where
  "get_false padding block_id [] tr = None"
| "get_false padding block_id (st # later) tr =
     (let tr1 = tr @ [Memory_fence_system] in
      case load (prefixes_flags st) (padding + block_id) of
        Inl e \<Rightarrow> Some (Inl e)
      | Inr flag \<Rightarrow>
          (let tr2 = tr1 @ [Load_volatile Flags (padding + block_id)] in
           if flag = PREFIX_EMPTY then get_false padding block_id later tr2
           else if flag = PREFIX_PARTIAL
           then (case load (prefixes_partial_values st) (padding + block_id) of
                   Inl e \<Rightarrow> Some (Inl e)
                 | Inr v \<Rightarrow>
                     Some (Inr ((flag, v),
                                tr2 @ [Load_volatile Partial_values (padding + block_id)])))
           else (case load (prefixes_complete_values st) (padding + block_id) of
                   Inl e \<Rightarrow> Some (Inl e)
                 | Inr v \<Rightarrow>
                     Some (Inr ((flag, v),
                                tr2 @ [Load_volatile Complete_values (padding + block_id)])))))"

subsection \<open>Warp collectives\<close>

text \<open>
  The lanes of a warp run in lockstep. A per-lane variable is a list indexed by
  \<open>lane_id()\<close>, of length \<open>warp_size()\<close>.
\<close>

text \<open>
  Modelled from the spec: \<open>warp_any\<close> and \<open>warp_all\<close>, declared in intrinsics.hpp, whose
  source is missing. They are the collectives "any lane observed X" and "all lanes
  observed X" of section 5.
\<close>

definition warp_any :: "bool list \<Rightarrow> bool" where
  "warp_any ps = list_ex (\<lambda>p. p) ps"

definition warp_all :: "bool list \<Rightarrow> bool" where
  "warp_all ps = list_all (\<lambda>p. p) ps"

text \<open>
  Modelled from the spec: \<open>headflag_scan_op_wrapper\<close> and \<open>reverse_binary_op_wrapper\<close>,
  declared in detail/binary\_op\_wrappers.hpp, whose source is missing. The head flag marks a
  segment boundary: a right operand that carries it starts the result afresh, otherwise
  the values are combined and the flags joined. The reverse wrapper swaps the operands.
\<close>

definition headflag_scan_op_wrapper ::
  "('a \<Rightarrow> 'a \<Rightarrow> 'a) \<Rightarrow> 'a \<times> bool \<Rightarrow> 'a \<times> bool \<Rightarrow> 'a \<times> bool" where
  "headflag_scan_op_wrapper scan_op t1 t2 =
     (if snd t2 then t2 else (scan_op (fst t1) (fst t2), snd t1 \<or> snd t2))"

definition reverse_binary_op_wrapper :: "('x \<Rightarrow> 'x \<Rightarrow> 'x) \<Rightarrow> 'x \<Rightarrow> 'x \<Rightarrow> 'x" where
  "reverse_binary_op_wrapper binary_op t1 t2 = binary_op t2 t1"

text \<open>
  Modelled from the spec: \<open>warp_reduce_crosslane::reduce\<close>, declared in
  warp/detail/warp\_reduce\_crosslane.hpp, whose source is missing. The value left in lane
  0 is the reduction of the lanes' inputs in lane order, the farthest lane innermost
  (section 4.3, step 3). \<open>None\<close>: a warp without lanes.
\<close>

fun warp_reduce :: "('x \<Rightarrow> 'x \<Rightarrow> 'x) \<Rightarrow> 'x list \<Rightarrow> 'x option" where
  "warp_reduce reduce_op [] = None"
| "warp_reduce reduce_op [x] = Some x"
| "warp_reduce reduce_op (x # y # ys) =
     (case warp_reduce reduce_op (y # ys) of None \<Rightarrow> None | Some r \<Rightarrow> Some (reduce_op x r))"

subsection \<open>\<open>lookback_scan_state<T, true>::get\<close>, executed by the warp\<close>

fun load_lanes :: "'x list \<Rightarrow> uint list \<Rightarrow> fault + 'x list" where
  "load_lanes xs [] = Inr []"
| "load_lanes xs (i # is) =
     (case load xs i of
        Inl e \<Rightarrow> Inl e
      | Inr v \<Rightarrow> (case load_lanes xs is of Inl e \<Rightarrow> Inl e | Inr vs \<Rightarrow> Inr (v # vs)))"

text \<open>
  Every lane loads the word of its own \<open>block_id\<close>; the warp repeats the load while
  \<open>warp_any(prefix.flag == PREFIX_EMPTY)\<close>. The list of states holds the contents of
  memory at the successive iterations; \<open>None\<close>: still polling when the list ends. Each
  lane then reads a \<open>prefix_type\<close> out of its word: the flag, and the value if the word
  holds it; if not, what the lane reads beyond the word, \<open>indeterminate block_id\<close>.
\<close>

fun get_true ::
  "nat \<Rightarrow> (uint \<Rightarrow> 'a) \<Rightarrow> uint \<Rightarrow> uint list \<Rightarrow> 'a lookback_scan_state_true list
     \<Rightarrow> (fault + (prefix_flag \<times> 'a) list) option" where
  "get_true sizeof_T indeterminate padding block_ids [] = None"
| "get_true sizeof_T indeterminate padding block_ids (st # later) =
     (case load_lanes (prefixes st) (map (\<lambda>block_id. padding + block_id) block_ids) of
        Inl e \<Rightarrow> Some (Inl e)
      | Inr ps \<Rightarrow>
          if warp_any (map (\<lambda>prefix. fst prefix = PREFIX_EMPTY) ps)
          then get_true sizeof_T indeterminate padding block_ids later
          else Some (Inr (map (\<lambda>(block_id, prefix).
                               (fst prefix,
                                if word_holds_value sizeof_T then snd prefix
                                else indeterminate block_id))
                            (zip block_ids ps))))"

subsection \<open>\<open>lookback_scan_prefix_op\<close>\<close>

text \<open>
  The template parameter \<open>LookbackScanState\<close> is the triple of operations the operator
  calls: \<open>scan_state_get\<close> takes the lanes' block ids and returns the lanes' (flag, value)
  pairs. The \<open>T\<close> results are those of lane 0, the lane whose \<open>warp_reduce\<close> result is
  complete and the one that publishes.
\<close>

definition reduce_partial_prefixes ::
  "(uint list \<Rightarrow> (fault + (prefix_flag \<times> 'a) list) option) \<Rightarrow> ('a \<Rightarrow> 'a \<Rightarrow> 'a) \<Rightarrow> uint list
     \<Rightarrow> (fault + prefix_flag list \<times> 'a) option" where
  "reduce_partial_prefixes scan_state_get scan_op block_ids =
     (case scan_state_get block_ids of
        None \<Rightarrow> None
      | Some (Inl e) \<Rightarrow> Some (Inl e)
      | Some (Inr got) \<Rightarrow>
          (let headflag_scan_op = reverse_binary_op_wrapper (headflag_scan_op_wrapper scan_op);
               value_flag = map (\<lambda>(flag, block_prefix). (block_prefix, flag = PREFIX_COMPLETE)) got
           in case warp_reduce headflag_scan_op value_flag of
                None \<Rightarrow> Some (Inl EmptyWarp)
              | Some r \<Rightarrow> Some (Inr (map fst got, fst r))))"

partial_function (option) get_prefix_while ::
  "uint \<Rightarrow> (uint list \<Rightarrow> (fault + (prefix_flag \<times> 'a) list) option) \<Rightarrow> ('a \<Rightarrow> 'a \<Rightarrow> 'a)
     \<Rightarrow> uint list \<Rightarrow> prefix_flag list \<Rightarrow> 'a \<Rightarrow> (fault + 'a) option" where
  "get_prefix_while warp_size scan_state_get scan_op previous_block_id flag prefix =
     (if warp_all (map (\<lambda>f. f \<noteq> PREFIX_COMPLETE) flag)
      then (let previous_block_id' = map (\<lambda>i. i - warp_size) previous_block_id
            in case reduce_partial_prefixes scan_state_get scan_op previous_block_id' of
                 None \<Rightarrow> None
               | Some (Inl e) \<Rightarrow> Some (Inl e)
               | Some (Inr (flag', partial_prefix)) \<Rightarrow>
                   get_prefix_while warp_size scan_state_get scan_op previous_block_id' flag'
                     (scan_op partial_prefix prefix))
      else Some (Inr prefix))"

definition get_prefix ::
  "uint \<Rightarrow> (uint list \<Rightarrow> (fault + (prefix_flag \<times> 'a) list) option) \<Rightarrow> ('a \<Rightarrow> 'a \<Rightarrow> 'a)
     \<Rightarrow> uint \<Rightarrow> (fault + 'a) option" where
  "get_prefix warp_size scan_state_get scan_op block_id =
     (let previous_block_id = map (\<lambda>lane_id. block_id - of_nat lane_id - 1) [0..<unat warp_size]
      in case reduce_partial_prefixes scan_state_get scan_op previous_block_id of
           None \<Rightarrow> None
         | Some (Inl e) \<Rightarrow> Some (Inl e)
         | Some (Inr (flag, partial_prefix)) \<Rightarrow>
             get_prefix_while warp_size scan_state_get scan_op previous_block_id flag partial_prefix)"

text \<open>
  \<open>operator()\<close>: lane 0 publishes the block's reduction as partial, the warp looks back,
  lane 0 publishes the complete prefix. The look-back reads, through \<open>scan_state_get\<close>,
  the memory as the other blocks write it meanwhile; \<open>st\<close> carries this block's own two
  writes. The result is the prefix of lane 0 and the memory with those writes.
\<close>

definition prefix_op ::
  "uint \<Rightarrow> (uint \<Rightarrow> 'a \<Rightarrow> 's \<Rightarrow> fault + 's) \<Rightarrow> (uint \<Rightarrow> 'a \<Rightarrow> 's \<Rightarrow> fault + 's)
     \<Rightarrow> (uint list \<Rightarrow> (fault + (prefix_flag \<times> 'a) list) option) \<Rightarrow> ('a \<Rightarrow> 'a \<Rightarrow> 'a)
     \<Rightarrow> uint \<Rightarrow> 'a \<Rightarrow> 's \<Rightarrow> (fault + 'a \<times> 's) option" where
  "prefix_op warp_size scan_state_set_partial scan_state_set_complete scan_state_get scan_op
       block_id reduction st =
     (case scan_state_set_partial block_id reduction st of
        Inl e \<Rightarrow> Some (Inl e)
      | Inr st1 \<Rightarrow>
          (case get_prefix warp_size scan_state_get scan_op block_id of
             None \<Rightarrow> None
           | Some (Inl e) \<Rightarrow> Some (Inl e)
           | Some (Inr prefix) \<Rightarrow>
               (case scan_state_set_complete block_id (scan_op prefix reduction) st1 of
                  Inl e \<Rightarrow> Some (Inl e)
                | Inr st2 \<Rightarrow> Some (Inr (prefix, st2)))))"

declare get_prefix_while.simps [code]

subsection \<open>Storage\<close>

text \<open>\<open>n = padding + number_of_blocks\<close> is computed in \<open>unsigned int\<close>.\<close>

definition get_storage_size_true :: "nat \<Rightarrow> uint \<Rightarrow> uint \<Rightarrow> nat" where
  "get_storage_size_true sizeof_T padding number_of_blocks =
     sizeof_prefix_underlying_type sizeof_T * unat (padding + number_of_blocks)"

text \<open>
  \<open>align_size\<close> comes from detail/various.hpp; it is a parameter.
  \<open>sizeof(flag_type)\<close> is \<open>sizeof(char) = 1\<close>.
\<close>

definition get_storage_size_false :: "(nat \<Rightarrow> nat) \<Rightarrow> nat \<Rightarrow> uint \<Rightarrow> uint \<Rightarrow> nat" where
  "get_storage_size_false align_size sizeof_T padding number_of_blocks =
     (let n = padding + number_of_blocks;
          size = align_size (unat n * 1);
          size = size + 2 * align_size (unat n * sizeof_T)
      in size)"

text \<open>\<open>create\<close> binds the three arrays to byte offsets into \<open>temp_storage\<close>.\<close>

record layout_false =
  prefixes_flags_offset :: nat
  prefixes_partial_values_offset :: nat
  prefixes_complete_values_offset :: nat

definition create_false :: "(nat \<Rightarrow> nat) \<Rightarrow> nat \<Rightarrow> uint \<Rightarrow> uint \<Rightarrow> layout_false" where
  "create_false align_size sizeof_T padding number_of_blocks =
     (let n = padding + number_of_blocks;
          ptr0 = 0;
          ptr1 = ptr0 + align_size (unat n * 1);
          ptr2 = ptr1 + align_size (unat n * sizeof_T)
      in \<lparr>prefixes_flags_offset = ptr0,
          prefixes_partial_values_offset = ptr1,
          prefixes_complete_values_offset = ptr2\<rparr>)"

text \<open>
  \<open>requiredStorageSize\<close> of the split strategy in the words of the specification: the sum
  of the independently aligned sizes of the flag region and of the two value regions for
  \<open>padding-width + blockCount\<close> slots.
\<close>

definition spec_requiredStorageSize :: "(nat \<Rightarrow> nat) \<Rightarrow> nat \<Rightarrow> nat \<Rightarrow> nat \<Rightarrow> nat" where
  "spec_requiredStorageSize align_size sizeof_T padding_width blockCount =
     align_size ((padding_width + blockCount) * 1)
     + align_size ((padding_width + blockCount) * sizeof_T)
     + align_size ((padding_width + blockCount) * sizeof_T)"

subsection \<open>Choice of the layout\<close>

text \<open>
  The second template argument defaults to \<open>std::is_arithmetic<T>::value\<close>. A payload
  type is described by what the choice can depend on: an arithmetic type of a given
  size, or a class type with its size and whether it is trivially copyable.
\<close>

datatype cpp_type = Arithmetic_type nat | Class_type bool nat

fun is_arithmetic :: "cpp_type \<Rightarrow> bool" where
  "is_arithmetic (Arithmetic_type sz) = True"
| "is_arithmetic (Class_type tc sz) = False"

fun is_trivially_copyable :: "cpp_type \<Rightarrow> bool" where
  "is_trivially_copyable (Arithmetic_type sz) = True"
| "is_trivially_copyable (Class_type tc sz) = tc"

fun sizeof :: "cpp_type \<Rightarrow> nat" where
  "sizeof (Arithmetic_type sz) = sz"
| "sizeof (Class_type tc sz) = sz"

datatype layout = Combined_word | Split_arrays

definition lookback_scan_state :: "cpp_type \<Rightarrow> layout" where
  "lookback_scan_state T = (if is_arithmetic T then Combined_word else Split_arrays)"

text \<open>
  The criterion in the words of the specification: the payload is small and trivially
  copyable, and a \{flag, value\} pair fits a 2, 4, 8 or 16 byte word.
\<close>

definition spec_fits_single_word :: "cpp_type \<Rightarrow> bool" where
  "spec_fits_single_word T =
     (is_trivially_copyable T \<and> 2 * sizeof T \<in> {2, 4, 8, 16})"

text \<open>
  \<open>initializeSlot\<close> in the words of the specification, on the flag array: Empty for the
  slot of block \<open>slotId\<close> if \<open>slotId < blockCount\<close>, else Invalid for the padding slot
  \<open>slotId\<close> if \<open>slotId < padding-width\<close>.
\<close>

definition spec_initializeSlot ::
  "uint \<Rightarrow> uint \<Rightarrow> uint \<Rightarrow> 'a lookback_scan_state_false \<Rightarrow> fault + 'a lookback_scan_state_false" where
  "spec_initializeSlot padding slotId blockCount st =
     (if slotId < blockCount
      then (case store (prefixes_flags st) (padding + slotId) PREFIX_EMPTY of
              Inl e \<Rightarrow> Inl e
            | Inr fs \<Rightarrow> Inr (st\<lparr>prefixes_flags := fs\<rparr>))
      else if slotId < padding
      then (case store (prefixes_flags st) slotId PREFIX_INVALID of
              Inl e \<Rightarrow> Inl e
            | Inr fs \<Rightarrow> Inr (st\<lparr>prefixes_flags := fs\<rparr>))
      else Inr st)"

subsection \<open>The reference scan and the protocol's memory\<close>

text \<open>
  \<open>segment scan_op reductions lo hi\<close> combines the reductions of the blocks
  \<open>lo, ..., hi - 1\<close> from left to right. The reference sequential scan: the exclusive
  prefix of block \<open>b > 0\<close> is the segment from 0 to \<open>b\<close>, the inclusive total of block
  \<open>j\<close> the segment from 0 to \<open>j + 1\<close>.
\<close>

definition segment :: "('a \<Rightarrow> 'a \<Rightarrow> 'a) \<Rightarrow> 'a list \<Rightarrow> nat \<Rightarrow> nat \<Rightarrow> 'a" where
  "segment scan_op reductions lo hi =
     foldl scan_op (reductions ! lo) (map (\<lambda>j. reductions ! j) [Suc lo..<hi])"

definition reference_scan :: "('a \<Rightarrow> 'a \<Rightarrow> 'a) \<Rightarrow> 'a list \<Rightarrow> nat \<Rightarrow> 'a" where
  "reference_scan scan_op reductions b = segment scan_op reductions 0 b"

text \<open>
  What a slot of a real block may hold while the blocks run: nothing yet, the block's
  own reduction as partial, or the block's inclusive total as complete. Block 0 has no
  predecessor and is not run through the operator: its slot goes from Empty to Complete.
  \<open>protocol_state\<close>: every padding slot is in the array and Invalid, and the slot of every
  block, at the index \<open>padding + block_id\<close> the code computes, is in the array and holds
  what \<open>slot_ok\<close> allows.
\<close>

definition slot_ok :: "('a \<Rightarrow> 'a \<Rightarrow> 'a) \<Rightarrow> 'a list \<Rightarrow> nat \<Rightarrow> prefix_flag \<times> 'a \<Rightarrow> bool" where
  "slot_ok scan_op reductions j p =
     (fst p = PREFIX_EMPTY
      \<or> (0 < j \<and> p = (PREFIX_PARTIAL, reductions ! j))
      \<or> p = (PREFIX_COMPLETE, reference_scan scan_op reductions (Suc j)))"

definition protocol_state ::
  "uint \<Rightarrow> uint \<Rightarrow> ('a \<Rightarrow> 'a \<Rightarrow> 'a) \<Rightarrow> 'a list \<Rightarrow> 'a lookback_scan_state_true \<Rightarrow> bool" where
  "protocol_state padding number_of_blocks scan_op reductions st =
     (length reductions = unat number_of_blocks
      \<and> (\<forall>i \<in> set [0..<unat padding].
            i < length (prefixes st) \<and> fst (prefixes st ! i) = PREFIX_INVALID)
      \<and> (\<forall>j \<in> set [0..<unat number_of_blocks].
            unat (padding + of_nat j) < length (prefixes st)
            \<and> slot_ok scan_op reductions j (prefixes st ! unat (padding + of_nat j))))"

text \<open>The blocks before \<open>b\<close> have published: none of their slots is Empty.\<close>

definition published :: "uint \<Rightarrow> nat \<Rightarrow> 'a lookback_scan_state_true \<Rightarrow> bool" where
  "published padding b st =
     (\<forall>j \<in> set [0..<b]. fst (prefixes st ! unat (padding + of_nat j)) \<noteq> PREFIX_EMPTY)"

text \<open>
  What the lanes of one round may see, lane 0 first, when lane 0 looks at block \<open>x - 1\<close>:
  a real block's partial or complete record, and Invalid beyond block 0.
\<close>

fun lanes_ok :: "('a \<Rightarrow> 'a \<Rightarrow> 'a) \<Rightarrow> 'a list \<Rightarrow> nat \<Rightarrow> (prefix_flag \<times> 'a) list \<Rightarrow> bool" where
  "lanes_ok scan_op reductions x [] = True"
| "lanes_ok scan_op reductions x (p # ps) =
     ((if x = 0 then fst p = PREFIX_INVALID
       else (p = (PREFIX_COMPLETE, reference_scan scan_op reductions x)
             \<or> (1 < x \<and> p = (PREFIX_PARTIAL, reductions ! (x - 1)))))
      \<and> lanes_ok scan_op reductions (x - 1) ps)"

text \<open>
  The block ids the lanes hold in a round in which lane 0 looks at block \<open>x - 1\<close>, and
  what the look-back needs of \<open>scan_state.get\<close>: in each round at or below block \<open>b\<close> it
  returns, one pair a lane, what \<open>lanes_ok\<close> allows.
\<close>

definition lanes :: "uint \<Rightarrow> uint \<Rightarrow> uint list" where
  "lanes warp_size x = map (\<lambda>lane_id. x - of_nat lane_id - 1) [0..<unat warp_size]"

definition rounds_ok ::
  "(uint list \<Rightarrow> (fault + (prefix_flag \<times> 'a) list) option) \<Rightarrow> uint \<Rightarrow> ('a \<Rightarrow> 'a \<Rightarrow> 'a) \<Rightarrow> 'a list \<Rightarrow> nat \<Rightarrow> bool" where
  "rounds_ok scan_state_get warp_size scan_op rs b =
     (\<forall>x. 0 < x \<and> x \<le> b \<longrightarrow>
        (\<exists>got. scan_state_get (lanes warp_size (of_nat x)) = Some (Inr got)
               \<and> length got = unat warp_size \<and> lanes_ok scan_op rs x got))"

text \<open>
  The result of a round in the words of the specification: the lanes up to and including
  the first one that saw Complete (all of them if none did), their values combined in
  grid order, the farthest block first.
\<close>

fun through_first_complete :: "(prefix_flag \<times> 'a) list \<Rightarrow> (prefix_flag \<times> 'a) list" where
  "through_first_complete [] = []"
| "through_first_complete (p # ps) =
     (if fst p = PREFIX_COMPLETE then [p] else p # through_first_complete ps)"

definition grid_order_combination :: "('a \<Rightarrow> 'a \<Rightarrow> 'a) \<Rightarrow> (prefix_flag \<times> 'a) list \<Rightarrow> 'a" where
  "grid_order_combination scan_op got =
     (let values = map snd (through_first_complete got)
      in foldl scan_op (last values) (rev (butlast values)))"

subsection \<open>Executions of the publishing protocol\<close>

text \<open>
  A block that runs the operator writes its slot twice: \<open>set_partial\<close>, then, after the
  look-back, \<open>set_complete\<close>. A configuration is the memory and how far each block has
  got; a step is one such write of one block; an execution starts from an initialised
  memory and lists its configurations, the latest first.
\<close>

datatype phase = Initialized | Published_partial | Published_complete

fun flag_history :: "phase \<Rightarrow> prefix_flag list" where
  "flag_history Initialized = [PREFIX_EMPTY]"
| "flag_history Published_partial = [PREFIX_EMPTY, PREFIX_PARTIAL]"
| "flag_history Published_complete = [PREFIX_EMPTY, PREFIX_PARTIAL, PREFIX_COMPLETE]"

definition flag_at :: "'a lookback_scan_state_true \<Rightarrow> nat \<Rightarrow> prefix_flag" where
  "flag_at st k = fst (prefixes st ! k)"

definition initialized :: "uint \<Rightarrow> uint \<Rightarrow> 'a lookback_scan_state_true \<Rightarrow> bool" where
  "initialized padding number_of_blocks st =
     (length (prefixes st) = unat padding + unat number_of_blocks
      \<and> (\<forall>i \<in> set [0..<unat padding]. flag_at st i = PREFIX_INVALID)
      \<and> (\<forall>j \<in> set [0..<unat number_of_blocks]. flag_at st (unat padding + j) = PREFIX_EMPTY))"

text \<open>
  Modelled from the spec: the initialisation pass is the caller's (section 6:
  \<open>initializeSlot\<close> is invoked for every id before any block publishes or reads). It is
  the sequence of the calls of \<open>initialize_prefix\<close> for the ids given.
\<close>

fun initialize_all ::
  "uint \<Rightarrow> 'a \<Rightarrow> uint \<Rightarrow> uint list \<Rightarrow> 'a lookback_scan_state_true
     \<Rightarrow> fault + 'a lookback_scan_state_true" where
  "initialize_all padding junk number_of_blocks [] st = Inr st"
| "initialize_all padding junk number_of_blocks (block_id # block_ids) st =
     (case initialize_prefix_true padding junk block_id number_of_blocks st of
        Inl e \<Rightarrow> Inl e
      | Inr st1 \<Rightarrow> initialize_all padding junk number_of_blocks block_ids st1)"

inductive step ::
  "nat \<Rightarrow> uint \<Rightarrow> uint \<Rightarrow> 'a lookback_scan_state_true \<times> (uint \<Rightarrow> phase)
     \<Rightarrow> 'a lookback_scan_state_true \<times> (uint \<Rightarrow> phase) \<Rightarrow> bool"
  for sizeof_T padding number_of_blocks where
  publish_partial:
    "block_id < number_of_blocks \<Longrightarrow> ph block_id = Initialized \<Longrightarrow>
     set_partial_true sizeof_T junk padding block_id v st = Inr st' \<Longrightarrow>
     step sizeof_T padding number_of_blocks (st, ph) (st', ph(block_id := Published_partial))"
| publish_complete:
    "block_id < number_of_blocks \<Longrightarrow> ph block_id = Published_partial \<Longrightarrow>
     set_complete_true sizeof_T junk padding block_id v st = Inr st' \<Longrightarrow>
     step sizeof_T padding number_of_blocks (st, ph) (st', ph(block_id := Published_complete))"

inductive execution ::
  "nat \<Rightarrow> uint \<Rightarrow> uint \<Rightarrow> ('a lookback_scan_state_true \<times> (uint \<Rightarrow> phase)) list \<Rightarrow> bool"
  for sizeof_T padding number_of_blocks where
  start:
    "initialized padding number_of_blocks st \<Longrightarrow>
     execution sizeof_T padding number_of_blocks [(st, \<lambda>block_id. Initialized)]"
| next_step:
    "execution sizeof_T padding number_of_blocks (c # cs) \<Longrightarrow>
     step sizeof_T padding number_of_blocks c c' \<Longrightarrow>
     execution sizeof_T padding number_of_blocks (c' # c # cs)"

subsection \<open>Concrete memories\<close>

text \<open>
  A payload of 8 bytes (\<open>unsigned long long\<close>) and an associative operator that is not
  commutative: the later operand unless it is zero.
\<close>

type_synonym u64 = "64 word"

definition last_nonzero :: "u64 \<Rightarrow> u64 \<Rightarrow> u64" where
  "last_nonzero x y = (if y = 0 then x else y)"

definition rs5 :: "u64 list" where "rs5 = [3, 5, 7, 0, 9]"

text \<open>
  Memories with padding 2 and five blocks whose reductions are \<open>rs5\<close>: initialised;
  block 0 complete and blocks 1 to 3 partial; blocks 0 to 2 all partial. \<open>st_near\<close> has
  padding 4. The padding slots hold whatever values initialisation left there.
\<close>

definition st_init :: "u64 lookback_scan_state_true" where
  "st_init = \<lparr>prefixes = [(PREFIX_INVALID, 41), (PREFIX_INVALID, 42), (PREFIX_EMPTY, 0),
     (PREFIX_EMPTY, 0), (PREFIX_EMPTY, 0), (PREFIX_EMPTY, 0), (PREFIX_EMPTY, 0)]\<rparr>"

definition st_run :: "u64 lookback_scan_state_true" where
  "st_run = \<lparr>prefixes = [(PREFIX_INVALID, 41), (PREFIX_INVALID, 42), (PREFIX_COMPLETE, 3),
     (PREFIX_PARTIAL, 5), (PREFIX_PARTIAL, 7), (PREFIX_PARTIAL, 0), (PREFIX_EMPTY, 0)]\<rparr>"

definition st_all_partial :: "u64 lookback_scan_state_true" where
  "st_all_partial = \<lparr>prefixes = [(PREFIX_INVALID, 41), (PREFIX_INVALID, 42), (PREFIX_PARTIAL, 3),
     (PREFIX_PARTIAL, 5), (PREFIX_PARTIAL, 7), (PREFIX_EMPTY, 0), (PREFIX_EMPTY, 0)]\<rparr>"

definition st_near :: "u64 lookback_scan_state_true" where
  "st_near = \<lparr>prefixes = [(PREFIX_INVALID, 41), (PREFIX_INVALID, 42), (PREFIX_INVALID, 43),
     (PREFIX_INVALID, 44), (PREFIX_COMPLETE, 3), (PREFIX_PARTIAL, 5), (PREFIX_EMPTY, 0),
     (PREFIX_EMPTY, 0), (PREFIX_EMPTY, 0)]\<rparr>"

text \<open>
  A memory for padding 2 and \<open>2^32 - 1\<close> blocks, initialised, and the run in which block
  \<open>2^32 - 2\<close> publishes its reduction 7 as partial: the index \<open>padding + block_id\<close> is 0
  in \<open>unsigned int\<close>.
\<close>

definition wrapped_init :: "u64 lookback_scan_state_true" where
  "wrapped_init = \<lparr>prefixes = replicate (unat (2 :: uint)) (PREFIX_INVALID, 0)
                                @ replicate (unat (- 1 :: uint)) (PREFIX_EMPTY, 0)\<rparr>"

definition wrapped_run :: "(u64 lookback_scan_state_true \<times> (uint \<Rightarrow> phase)) list" where
  "wrapped_run =
     [(wrapped_init\<lparr>prefixes := (prefixes wrapped_init)[0 := (PREFIX_PARTIAL, 7)]\<rparr>,
       (\<lambda>block_id. Initialized)(- 2 := Published_partial)),
      (wrapped_init, \<lambda>block_id. Initialized)]"

definition mem3 :: "nat lookback_scan_state_false" where
  "mem3 = \<lparr>prefixes_flags = [PREFIX_INVALID, PREFIX_EMPTY, PREFIX_EMPTY],
           prefixes_partial_values = [0, 0, 0], prefixes_complete_values = [0, 0, 0]\<rparr>"

definition garbage3 :: "nat lookback_scan_state_false" where
  "garbage3 = \<lparr>prefixes_flags = [PREFIX_PARTIAL, PREFIX_PARTIAL, PREFIX_PARTIAL],
               prefixes_partial_values = [0, 0, 0], prefixes_complete_values = [0, 0, 0]\<rparr>"

definition garbage3_true :: "nat lookback_scan_state_true" where
  "garbage3_true = \<lparr>prefixes = [(PREFIX_PARTIAL, 5), (PREFIX_PARTIAL, 6), (PREFIX_PARTIAL, 7)]\<rparr>"

definition mem_partial :: "nat lookback_scan_state_false" where
  "mem_partial = \<lparr>prefixes_flags = [PREFIX_INVALID, PREFIX_EMPTY, PREFIX_PARTIAL],
                  prefixes_partial_values = [0, 0, 7], prefixes_complete_values = [0, 0, 0]\<rparr>"

text \<open>An alignment to 256 bytes, to instantiate \<open>align_size\<close> with.\<close>

definition align_size_256 :: "nat \<Rightarrow> nat" where
  "align_size_256 sz = ((sz + 256 - 1) div 256) * 256"

text \<open>
  An execution with padding 1 and two blocks, the latest configuration first: block 0
  publishes 5 as partial, block 1 publishes 7 as partial, block 0 completes with 5,
  block 1 completes with 12.
\<close>

definition run_example :: "(u64 lookback_scan_state_true \<times> (uint \<Rightarrow> phase)) list" where
  "run_example =
     [(\<lparr>prefixes = [(PREFIX_INVALID, 0), (PREFIX_COMPLETE, 5), (PREFIX_COMPLETE, 12)]\<rparr>,
       (\<lambda>block_id. Initialized)(0 := Published_partial, 1 := Published_partial,
          0 := Published_complete, 1 := Published_complete)),
      (\<lparr>prefixes = [(PREFIX_INVALID, 0), (PREFIX_COMPLETE, 5), (PREFIX_PARTIAL, 7)]\<rparr>,
       (\<lambda>block_id. Initialized)(0 := Published_partial, 1 := Published_partial,
          0 := Published_complete)),
      (\<lparr>prefixes = [(PREFIX_INVALID, 0), (PREFIX_PARTIAL, 5), (PREFIX_PARTIAL, 7)]\<rparr>,
       (\<lambda>block_id. Initialized)(0 := Published_partial, 1 := Published_partial)),
      (\<lparr>prefixes = [(PREFIX_INVALID, 0), (PREFIX_PARTIAL, 5), (PREFIX_EMPTY, 0)]\<rparr>,
       (\<lambda>block_id. Initialized)(0 := Published_partial)),
      (\<lparr>prefixes = [(PREFIX_INVALID, 0), (PREFIX_EMPTY, 0), (PREFIX_EMPTY, 0)]\<rparr>,
       \<lambda>block_id. Initialized)]"

section \<open>Properties\<close>

subsection \<open>Loads and stores\<close>

lemma store_Inr: "store xs i v = Inr ys \<longleftrightarrow> unat i < length xs \<and> ys = xs[unat i := v]"
  by (auto simp: store_def)


lemma pad_plus_neq:
  "block_id < padding \<Longrightarrow> unat (padding + block_id) \<noteq> unat (block_id :: uint)"
proof
  assume lt: "block_id < padding" and eq: "unat (padding + block_id) = unat block_id"
  from eq have "padding + block_id = block_id" by (simp add: word_unat_eq_iff)
  then have "padding = 0" by simp
  with lt show False by simp
qed

lemma unat_m1: "unat (- 1 :: uint) = 4294967295"
  by (simp add: unsigned_minus_1_eq_mask mask_eq_exp_minus_1)

lemma unat_m2: "unat (- 2 :: uint) = 4294967294"
proof -
  have "(- 2 :: uint) = - 1 - 1" by simp
  also have "unat \<dots> = unat (- 1 :: uint) - unat (1 :: uint)"
    by (rule unat_sub) (simp add: word_le_nat_alt unat_m1)
  finally show ?thesis by (simp add: unat_m1)
qed

lemma unat_m64: "unat (- 64 :: uint) = 4294967232"
proof -
  have "(- 64 :: uint) = - 1 - 63" by simp
  also have "unat \<dots> = unat (- 1 :: uint) - unat (63 :: uint)"
    by (rule unat_sub) (simp add: word_le_nat_alt unat_m1)
  finally show ?thesis by (simp add: unat_m1)
qed

subsection \<open>What the setters of the split layout write\<close>





subsection \<open>Initialisation of a slot\<close>

lemma initialize_prefix_false_Inr:
  "initialize_prefix_false padding block_id number_of_blocks st = Inr st1 \<longleftrightarrow>
     (block_id < number_of_blocks \<longrightarrow> unat (padding + block_id) < length (prefixes_flags st)) \<and>
     (block_id < padding \<longrightarrow> unat block_id < length (prefixes_flags st)) \<and>
     st1 = st\<lparr>prefixes_flags :=
             (let fs = (if block_id < number_of_blocks
                        then (prefixes_flags st)[unat (padding + block_id) := PREFIX_EMPTY]
                        else prefixes_flags st)
              in if block_id < padding then fs[unat block_id := PREFIX_INVALID] else fs)\<rparr>"
  unfolding initialize_prefix_false_def store_def by (auto simp: Let_def)

lemma initialize_prefix_true_Inr:
  "initialize_prefix_true padding junk block_id number_of_blocks st = Inr st1 \<longleftrightarrow>
     (block_id < number_of_blocks \<longrightarrow> unat (padding + block_id) < length (prefixes st)) \<and>
     (block_id < padding \<longrightarrow> unat block_id < length (prefixes st)) \<and>
     st1 = st\<lparr>prefixes :=
             (let ps = (if block_id < number_of_blocks
                        then (prefixes st)[unat (padding + block_id) := (PREFIX_EMPTY, junk)]
                        else prefixes st)
              in if block_id < padding then ps[unat block_id := (PREFIX_INVALID, junk)] else ps)\<rparr>"
  unfolding initialize_prefix_true_def store_def by (auto simp: Let_def)

text \<open>
  C9, as stated, fails on the combined layout. \<open>initialize_prefix\<close> stores the whole word
  of a \<open>prefix\<close> of which it assigned the flag only, so the value part a call writes is
  what that call's uninitialised variable held. After a call that left 9 there and a
  second one, with the same arguments, that left 8, the state is not the state after the
  first.
\<close>

theorem initialize_prefix_value_counterexample:
  "initialize_prefix_true 2 9 0 1 garbage3_true =
     Inr \<lparr>prefixes = [(PREFIX_INVALID, 9), (PREFIX_PARTIAL, 6), (PREFIX_EMPTY, 9)]\<rparr>
   \<and> initialize_prefix_true 2 8 0 1
        \<lparr>prefixes = [(PREFIX_INVALID, 9), (PREFIX_PARTIAL, 6), (PREFIX_EMPTY, 9)]\<rparr> =
     Inr \<lparr>prefixes = [(PREFIX_INVALID, 8), (PREFIX_PARTIAL, 6), (PREFIX_EMPTY, 8)]\<rparr>
   \<and> \<lparr>prefixes = [(PREFIX_INVALID, 8 :: nat), (PREFIX_PARTIAL, 6), (PREFIX_EMPTY, 8)]\<rparr>
       \<noteq> \<lparr>prefixes = [(PREFIX_INVALID, 9), (PREFIX_PARTIAL, 6), (PREFIX_EMPTY, 9)]\<rparr>"
  by (simp add: initialize_prefix_true_def store_def garbage3_true_def)

text \<open>
  C9, amended. On the split layout a second \<open>initialize_prefix\<close> with the same arguments
  leaves the state exactly as the first left it. On the combined layout the second call
  succeeds and leaves every flag, and every entry it does not write, as the first left
  them; the state is the same when the uninitialised value part stored is the same.
\<close>

theorem initialize_prefix_idempotent:
  "(initialize_prefix_false padding block_id number_of_blocks st = Inr st1 \<longrightarrow>
      initialize_prefix_false padding block_id number_of_blocks st1 = Inr st1)
   \<and> (initialize_prefix_true padding junk block_id number_of_blocks ct = Inr ct1 \<longrightarrow>
      (\<exists>ct2. initialize_prefix_true padding junk' block_id number_of_blocks ct1 = Inr ct2
         \<and> map fst (prefixes ct2) = map fst (prefixes ct1)
         \<and> (\<forall>i. \<not> (block_id < number_of_blocks \<and> i = unat (padding + block_id))
                 \<and> \<not> (block_id < padding \<and> i = unat block_id)
               \<longrightarrow> prefixes ct2 ! i = prefixes ct1 ! i)
         \<and> (junk' = junk \<longrightarrow> ct2 = ct1)))"
proof (intro conjI impI)
  assume "initialize_prefix_false padding block_id number_of_blocks st = Inr st1"
  then show "initialize_prefix_false padding block_id number_of_blocks st1 = Inr st1"
    by (auto simp: initialize_prefix_false_Inr Let_def list_update_swap pad_plus_neq)
next
  assume first: "initialize_prefix_true padding junk block_id number_of_blocks ct = Inr ct1"
  define ps2 where "ps2 =
     (let ps = (if block_id < number_of_blocks
                then (prefixes ct1)[unat (padding + block_id) := (PREFIX_EMPTY, junk')]
                else prefixes ct1)
      in if block_id < padding then ps[unat block_id := (PREFIX_INVALID, junk')] else ps)"
  from first have second:
    "initialize_prefix_true padding junk' block_id number_of_blocks ct1 = Inr (ct1\<lparr>prefixes := ps2\<rparr>)"
    unfolding ps2_def by (auto simp: initialize_prefix_true_Inr Let_def)
  from first have flags: "map fst ps2 = map fst (prefixes ct1)"
    unfolding ps2_def
    by (auto simp: initialize_prefix_true_Inr Let_def list_update_swap pad_plus_neq map_update)
  have frame: "\<forall>i. \<not> (block_id < number_of_blocks \<and> i = unat (padding + block_id))
                 \<and> \<not> (block_id < padding \<and> i = unat block_id)
               \<longrightarrow> ps2 ! i = prefixes ct1 ! i"
    unfolding ps2_def by (auto simp: Let_def nth_list_update)
  from first have same: "junk' = junk \<longrightarrow> ct1\<lparr>prefixes := ps2\<rparr> = ct1"
    unfolding ps2_def
    by (auto simp: initialize_prefix_true_Inr Let_def list_update_swap pad_plus_neq)
  from second flags frame same
  show "\<exists>ct2. initialize_prefix_true padding junk' block_id number_of_blocks ct1 = Inr ct2
         \<and> map fst (prefixes ct2) = map fst (prefixes ct1)
         \<and> (\<forall>i. \<not> (block_id < number_of_blocks \<and> i = unat (padding + block_id))
                 \<and> \<not> (block_id < padding \<and> i = unat block_id)
               \<longrightarrow> prefixes ct2 ! i = prefixes ct1 ! i)
         \<and> (junk' = junk \<longrightarrow> ct2 = ct1)"
    by (intro exI [of _ "ct1\<lparr>prefixes := ps2\<rparr>"]) simp
qed

theorem initialize_prefix_idempotent_witness:
  "initialize_prefix_false 2 0 1 garbage3 =
     Inr (garbage3\<lparr>prefixes_flags := [PREFIX_INVALID, PREFIX_PARTIAL, PREFIX_EMPTY]\<rparr>)
   \<and> initialize_prefix_false 2 0 1
        (garbage3\<lparr>prefixes_flags := [PREFIX_INVALID, PREFIX_PARTIAL, PREFIX_EMPTY]\<rparr>) =
     Inr (garbage3\<lparr>prefixes_flags := [PREFIX_INVALID, PREFIX_PARTIAL, PREFIX_EMPTY]\<rparr>)
   \<and> initialize_prefix_true 2 9 0 1 garbage3_true =
     Inr \<lparr>prefixes = [(PREFIX_INVALID, 9), (PREFIX_PARTIAL, 6), (PREFIX_EMPTY, 9)]\<rparr>
   \<and> (\<exists>ct2. initialize_prefix_true 2 8 0 1
              \<lparr>prefixes = [(PREFIX_INVALID, 9), (PREFIX_PARTIAL, 6), (PREFIX_EMPTY, 9 :: nat)]\<rparr>
            = Inr ct2
         \<and> map fst (prefixes ct2) = [PREFIX_INVALID, PREFIX_PARTIAL, PREFIX_EMPTY]
         \<and> prefixes ct2 ! 1 = (PREFIX_PARTIAL, 6))"
proof -
  have f1: "initialize_prefix_false 2 0 1 garbage3 =
     Inr (garbage3\<lparr>prefixes_flags := [PREFIX_INVALID, PREFIX_PARTIAL, PREFIX_EMPTY]\<rparr>)"
    by (simp add: initialize_prefix_false_def store_def garbage3_def)
  have t1: "initialize_prefix_true 2 9 0 1 garbage3_true =
     Inr \<lparr>prefixes = [(PREFIX_INVALID, 9), (PREFIX_PARTIAL, 6), (PREFIX_EMPTY, 9)]\<rparr>"
    by (simp add: initialize_prefix_true_def store_def garbage3_true_def)
  note inst = initialize_prefix_idempotent [of 2 0 1 garbage3 _ 9 garbage3_true _ 8]
  from inst f1 have f2: "initialize_prefix_false 2 0 1
        (garbage3\<lparr>prefixes_flags := [PREFIX_INVALID, PREFIX_PARTIAL, PREFIX_EMPTY]\<rparr>) =
     Inr (garbage3\<lparr>prefixes_flags := [PREFIX_INVALID, PREFIX_PARTIAL, PREFIX_EMPTY]\<rparr>)"
    by blast
  from inst t1 obtain ct2 where
    s: "initialize_prefix_true 2 8 0 1
          \<lparr>prefixes = [(PREFIX_INVALID, 9), (PREFIX_PARTIAL, 6), (PREFIX_EMPTY, 9 :: nat)]\<rparr> = Inr ct2"
    and fl: "map fst (prefixes ct2)
        = map fst (prefixes \<lparr>prefixes = [(PREFIX_INVALID, 9 :: nat), (PREFIX_PARTIAL, 6), (PREFIX_EMPTY, 9)]\<rparr>)"
    and fr: "\<forall>i. \<not> ((0 :: uint) < 1 \<and> i = unat (2 + 0 :: uint))
                 \<and> \<not> ((0 :: uint) < 2 \<and> i = unat (0 :: uint))
               \<longrightarrow> prefixes ct2 ! i
                  = prefixes \<lparr>prefixes = [(PREFIX_INVALID, 9 :: nat), (PREFIX_PARTIAL, 6), (PREFIX_EMPTY, 9)]\<rparr> ! i"
    by blast
  from fl have c1: "map fst (prefixes ct2) = [PREFIX_INVALID, PREFIX_PARTIAL, PREFIX_EMPTY]" by simp
  from fr [rule_format, of 1] have c2: "prefixes ct2 ! 1 = (PREFIX_PARTIAL, 6)" by simp
  from s c1 c2 have e: "\<exists>ct2. initialize_prefix_true 2 8 0 1
              \<lparr>prefixes = [(PREFIX_INVALID, 9), (PREFIX_PARTIAL, 6), (PREFIX_EMPTY, 9 :: nat)]\<rparr>
            = Inr ct2
         \<and> map fst (prefixes ct2) = [PREFIX_INVALID, PREFIX_PARTIAL, PREFIX_EMPTY]
         \<and> prefixes ct2 ! 1 = (PREFIX_PARTIAL, 6)"
    by (intro exI [of _ ct2] conjI)
  show ?thesis by (intro conjI) (rule f1, rule f2, rule t1, rule e)
qed

text \<open>
  C6, as the specification words it (Empty if \<open>slotId < blockCount\<close>, \<^emph>\<open>else\<close> Invalid if
  \<open>slotId < padding-width\<close>), fails: the two tests are independent, and a call with
  \<open>slotId\<close> below both bounds writes two entries, Empty at \<open>padding + slotId\<close> and Invalid
  at \<open>slotId\<close>.
\<close>

theorem initializeSlot_else_counterexample:
  "initialize_prefix_false 2 0 1 garbage3 =
     Inr (garbage3\<lparr>prefixes_flags := [PREFIX_INVALID, PREFIX_PARTIAL, PREFIX_EMPTY]\<rparr>)
   \<and> spec_initializeSlot 2 0 1 garbage3 =
     Inr (garbage3\<lparr>prefixes_flags := [PREFIX_PARTIAL, PREFIX_PARTIAL, PREFIX_EMPTY]\<rparr>)
   \<and> initialize_prefix_false 2 0 1 garbage3 \<noteq> spec_initializeSlot 2 0 1 garbage3"
  by (simp add: initialize_prefix_false_def spec_initializeSlot_def store_def garbage3_def)

text \<open>
  C6, amended. \<open>initialize_prefix(id, blockCount)\<close> writes Empty to the entry
  \<open>padding + id\<close> if \<open>id < blockCount\<close> and, independently, Invalid to the entry \<open>id\<close> if
  \<open>id < padding\<close>; every other entry and the value arrays keep their contents, and with
  \<open>id\<close> below neither bound the state is unchanged. The same holds for the flag
  components on the combined layout.
\<close>

theorem initialize_prefix_writes:
  "(initialize_prefix_false padding block_id number_of_blocks st = Inr st1 \<longrightarrow>
       prefixes_partial_values st1 = prefixes_partial_values st
     \<and> prefixes_complete_values st1 = prefixes_complete_values st
     \<and> length (prefixes_flags st1) = length (prefixes_flags st)
     \<and> (block_id < number_of_blocks \<longrightarrow> prefixes_flags st1 ! unat (padding + block_id) = PREFIX_EMPTY)
     \<and> (block_id < padding \<longrightarrow> prefixes_flags st1 ! unat block_id = PREFIX_INVALID)
     \<and> (\<forall>i. \<not> (block_id < number_of_blocks \<and> i = unat (padding + block_id))
             \<and> \<not> (block_id < padding \<and> i = unat block_id)
           \<longrightarrow> prefixes_flags st1 ! i = prefixes_flags st ! i)
     \<and> (\<not> block_id < number_of_blocks \<and> \<not> block_id < padding \<longrightarrow> st1 = st))
   \<and> (initialize_prefix_true padding junk block_id number_of_blocks ct = Inr ct1 \<longrightarrow>
       length (prefixes ct1) = length (prefixes ct)
     \<and> (block_id < number_of_blocks \<longrightarrow> fst (prefixes ct1 ! unat (padding + block_id)) = PREFIX_EMPTY)
     \<and> (block_id < padding \<longrightarrow> fst (prefixes ct1 ! unat block_id) = PREFIX_INVALID)
     \<and> (\<forall>i. \<not> (block_id < number_of_blocks \<and> i = unat (padding + block_id))
             \<and> \<not> (block_id < padding \<and> i = unat block_id)
           \<longrightarrow> prefixes ct1 ! i = prefixes ct ! i)
     \<and> (\<not> block_id < number_of_blocks \<and> \<not> block_id < padding \<longrightarrow> ct1 = ct))"
  using pad_plus_neq [of block_id padding]
  by (auto simp: initialize_prefix_false_Inr initialize_prefix_true_Inr Let_def nth_list_update)

theorem initialize_prefix_writes_witness:
  "initialize_prefix_false 2 0 1 garbage3 =
     Inr (garbage3\<lparr>prefixes_flags := [PREFIX_INVALID, PREFIX_PARTIAL, PREFIX_EMPTY]\<rparr>)
   \<and> initialize_prefix_true 2 9 0 1 garbage3_true =
     Inr \<lparr>prefixes = [(PREFIX_INVALID, 9), (PREFIX_PARTIAL, 6), (PREFIX_EMPTY, 9)]\<rparr>
   \<and> (0::uint) < 1 \<and> (0::uint) < 2
   \<and> prefixes_flags (garbage3\<lparr>prefixes_flags := [PREFIX_INVALID, PREFIX_PARTIAL, PREFIX_EMPTY]\<rparr>)
         ! unat (2 + 0 :: uint) = PREFIX_EMPTY
   \<and> prefixes_flags (garbage3\<lparr>prefixes_flags := [PREFIX_INVALID, PREFIX_PARTIAL, PREFIX_EMPTY]\<rparr>)
         ! unat (0 :: uint) = PREFIX_INVALID"
  using initialize_prefix_writes [of 2 0 1 garbage3 _ 9 garbage3_true]
  by (simp add: initialize_prefix_false_def initialize_prefix_true_def store_def
        garbage3_def garbage3_true_def)

subsection \<open>Storage size and layout\<close>

text \<open>
  C7, amended. The storage size is a function of the block count, the padding and the
  sizes of the types only. On the split layout it is the sum of the aligned size of the
  flag region and of the two value regions, each for \<open>n\<close> slots, where \<open>n\<close> is
  \<open>padding + number_of_blocks\<close> computed in \<open>unsigned int\<close>; when
  \<open>padding + number_of_blocks < 2^32\<close> that is the size the specification gives for
  \<open>padding + number_of_blocks\<close> slots. The offsets \<open>create\<close> computes start the three
  regions one after the other and end at the storage size; when \<open>align_size\<close> does not
  shrink, each array of \<open>n\<close> elements ends before the next region starts.
\<close>

theorem storage_size_layout:
  "get_storage_size_true sizeof_T padding number_of_blocks =
      sizeof_prefix_underlying_type sizeof_T * unat (padding + number_of_blocks)
   \<and> get_storage_size_false align_size sizeof_T padding number_of_blocks =
      align_size (unat (padding + number_of_blocks))
      + align_size (unat (padding + number_of_blocks) * sizeof_T)
      + align_size (unat (padding + number_of_blocks) * sizeof_T)
   \<and> (unat padding + unat number_of_blocks < 2 ^ 32 \<longrightarrow>
        unat (padding + number_of_blocks) = unat padding + unat number_of_blocks
        \<and> get_storage_size_false align_size sizeof_T padding number_of_blocks =
            spec_requiredStorageSize align_size sizeof_T (unat padding) (unat number_of_blocks))
   \<and> prefixes_flags_offset (create_false align_size sizeof_T padding number_of_blocks) = 0
   \<and> prefixes_partial_values_offset (create_false align_size sizeof_T padding number_of_blocks) =
        prefixes_flags_offset (create_false align_size sizeof_T padding number_of_blocks)
        + align_size (unat (padding + number_of_blocks))
   \<and> prefixes_complete_values_offset (create_false align_size sizeof_T padding number_of_blocks) =
        prefixes_partial_values_offset (create_false align_size sizeof_T padding number_of_blocks)
        + align_size (unat (padding + number_of_blocks) * sizeof_T)
   \<and> get_storage_size_false align_size sizeof_T padding number_of_blocks =
        prefixes_complete_values_offset (create_false align_size sizeof_T padding number_of_blocks)
        + align_size (unat (padding + number_of_blocks) * sizeof_T)
   \<and> ((\<forall>x. x \<le> align_size x) \<longrightarrow>
        prefixes_flags_offset (create_false align_size sizeof_T padding number_of_blocks)
          + unat (padding + number_of_blocks) * 1
          \<le> prefixes_partial_values_offset (create_false align_size sizeof_T padding number_of_blocks)
      \<and> prefixes_partial_values_offset (create_false align_size sizeof_T padding number_of_blocks)
          + unat (padding + number_of_blocks) * sizeof_T
          \<le> prefixes_complete_values_offset (create_false align_size sizeof_T padding number_of_blocks)
      \<and> prefixes_complete_values_offset (create_false align_size sizeof_T padding number_of_blocks)
          + unat (padding + number_of_blocks) * sizeof_T
          \<le> get_storage_size_false align_size sizeof_T padding number_of_blocks)"
proof -
  have nowrap: "unat padding + unat number_of_blocks < 2 ^ 32 \<Longrightarrow>
      unat (padding + number_of_blocks) = unat padding + unat number_of_blocks"
    using unat_add_lem [of padding number_of_blocks] by simp
  show ?thesis
    using nowrap
    by (simp add: get_storage_size_true_def get_storage_size_false_def create_false_def Let_def
          add_le_mono spec_requiredStorageSize_def)
qed

lemma align_size_256_ge: "x \<le> align_size_256 x"
proof -
  have "x \<le> ((x + 255) div 256) * 256" by arith
  then show ?thesis by (simp add: align_size_256_def)
qed

lemma align_164: "align_size_256 164 = 256" by (simp add: align_size_256_def)
lemma align_3936: "align_size_256 3936 = 4096" by (simp add: align_size_256_def)

theorem storage_size_layout_witness:
  "(\<forall>x. x \<le> align_size_256 x)
   \<and> unat (64 :: uint) + unat (100 :: uint) < 2 ^ 32
   \<and> get_storage_size_false align_size_256 24 64 100 = 8448
   \<and> spec_requiredStorageSize align_size_256 24 (unat (64 :: uint)) (unat (100 :: uint)) = 8448
   \<and> create_false align_size_256 24 64 100 =
       \<lparr>prefixes_flags_offset = 0, prefixes_partial_values_offset = 256,
        prefixes_complete_values_offset = 4352\<rparr>"
proof -
  have ge: "\<forall>x. x \<le> align_size_256 x" by (simp add: align_size_256_ge)
  have n: "unat (64 + 100 :: uint) = 164" by simp
  have b: "unat (64 :: uint) + unat (100 :: uint) < 2 ^ 32" by simp
  note inst = storage_size_layout [of 24 64 100 align_size_256]
  have sz: "get_storage_size_false align_size_256 24 64 100 = 8448"
    using inst by (simp only: n) (simp add: align_164 align_3936)
  from inst b have "get_storage_size_false align_size_256 24 64 100
      = spec_requiredStorageSize align_size_256 24 (unat (64 :: uint)) (unat (100 :: uint))"
    by blast
  with sz have sp: "spec_requiredStorageSize align_size_256 24 (unat (64 :: uint)) (unat (100 :: uint)) = 8448"
    by simp
  have cr: "create_false align_size_256 24 64 100 =
       \<lparr>prefixes_flags_offset = 0, prefixes_partial_values_offset = 256,
        prefixes_complete_values_offset = 4352\<rparr>"
    by (simp add: create_false_def align_164 align_3936)
  from ge b sz sp cr show ?thesis by blast
qed

text \<open>
  C7, as stated, fails when \<open>padding + number_of_blocks\<close> reaches \<open>2^32\<close>: the sum is
  computed in \<open>unsigned int\<close>. With padding 64 and \<open>2^32 - 64\<close> blocks it is 0, the
  storage size is 0 bytes and the three regions start at offset 0, while the aligned
  regions for the \<open>2^32\<close> slots take 210453397504 bytes.
\<close>

theorem storage_size_wrap_counterexample:
  "unat (64 :: uint) + unat (- 64 :: uint) = 4294967296
   \<and> get_storage_size_false align_size_256 24 64 (- 64) = 0
   \<and> create_false align_size_256 24 64 (- 64) =
       \<lparr>prefixes_flags_offset = 0, prefixes_partial_values_offset = 0,
        prefixes_complete_values_offset = 0\<rparr>
   \<and> spec_requiredStorageSize align_size_256 24 (unat (64 :: uint)) (unat (- 64 :: uint))
       = 210453397504"
proof -
  have n: "unat (64 :: uint) + unat (- 64 :: uint) = 4294967296" by (simp add: unat_m64)
  have z: "(64 :: uint) + - 64 = 0" by simp
  have a0: "align_size_256 0 = 0" by (simp add: align_size_256_def)
  have sz: "get_storage_size_false align_size_256 24 64 (- 64) = 0"
    unfolding get_storage_size_false_def z by (simp add: a0)
  have cr: "create_false align_size_256 24 64 (- 64) =
       \<lparr>prefixes_flags_offset = 0, prefixes_partial_values_offset = 0,
        prefixes_complete_values_offset = 0\<rparr>"
    unfolding create_false_def z by (simp add: a0)
  have a1: "align_size_256 4294967296 = 4294967296" by (simp add: align_size_256_def)
  have a2: "align_size_256 103079215104 = 103079215104" by (simp add: align_size_256_def)
  have sp: "spec_requiredStorageSize align_size_256 24 (unat (64 :: uint)) (unat (- 64 :: uint))
       = 210453397504"
    unfolding spec_requiredStorageSize_def n by (simp add: a1 a2)
  from n sz cr sp show ?thesis by blast
qed

subsection \<open>Choice of the layout\<close>

text \<open>
  C8, as stated, fails: a trivially copyable class of 4 bytes meets the criterion of the
  specification and gets the split layout.
\<close>

theorem layout_choice_counterexample:
  "spec_fits_single_word (Class_type True 4) \<and> lookback_scan_state (Class_type True 4) = Split_arrays"
  by (simp add: spec_fits_single_word_def lookback_scan_state_def)

text \<open>
  C8, amended. The layout is a function of the payload type alone. Among the payloads
  that meet the criterion of the specification, the combined layout is used exactly for
  those of arithmetic type. Every payload that is not of arithmetic type gets the split
  layout. An arithmetic payload of 1, 2, 4 or 8 bytes gets the combined layout, is
  trivially copyable, and its \{flag, value\} word has twice its size, 2, 4, 8 or 16
  bytes, and holds the value.
\<close>

theorem layout_choice:
  "(spec_fits_single_word T \<longrightarrow>
      (lookback_scan_state T = Combined_word \<longleftrightarrow> is_arithmetic T))
   \<and> (\<not> is_arithmetic T \<longrightarrow> lookback_scan_state T = Split_arrays)
   \<and> (is_arithmetic T \<and> sizeof T \<in> {1, 2, 4, 8} \<longrightarrow>
        lookback_scan_state T = Combined_word
        \<and> spec_fits_single_word T
        \<and> sizeof_prefix_underlying_type (sizeof T) = 2 * sizeof T
        \<and> sizeof_prefix_underlying_type (sizeof T) \<in> {2, 4, 8, 16}
        \<and> word_holds_value (sizeof T))"
  by (cases T) (auto simp: lookback_scan_state_def spec_fits_single_word_def
        sizeof_prefix_underlying_type_def sizeof_flag_type_def word_holds_value_def)

theorem layout_choice_witness:
  "spec_fits_single_word (Arithmetic_type 4)
   \<and> is_arithmetic (Arithmetic_type 4)
   \<and> sizeof (Arithmetic_type 4) \<in> {1, 2, 4, 8}
   \<and> lookback_scan_state (Arithmetic_type 4) = Combined_word
   \<and> sizeof_prefix_underlying_type (sizeof (Arithmetic_type 4)) = 8
   \<and> word_holds_value (sizeof (Arithmetic_type 4))"
  using layout_choice [of "Arithmetic_type 4"]
  by (simp add: spec_fits_single_word_def)

text \<open>
  An arithmetic payload of 16 bytes also gets the combined layout; its word is two
  \<open>char\<close>s and does not hold the value.
\<close>

lemma arithmetic_16_combined_word:
  "lookback_scan_state (Arithmetic_type 16) = Combined_word
   \<and> \<not> spec_fits_single_word (Arithmetic_type 16)
   \<and> sizeof_prefix_underlying_type (sizeof (Arithmetic_type 16)) = 2
   \<and> \<not> word_holds_value (sizeof (Arithmetic_type 16))"
  by (simp add: lookback_scan_state_def spec_fits_single_word_def
        sizeof_prefix_underlying_type_def sizeof_flag_type_def word_holds_value_def)

subsection \<open>Order of the accesses of the split layout\<close>

lemma get_false_trace:
  "get_false padding block_id sts tr = Some (Inr ((flag, v), tr')) \<Longrightarrow>
   \<exists>k < length sts.
      (\<forall>j < k. load (prefixes_flags (sts ! j)) (padding + block_id) = Inr PREFIX_EMPTY)
      \<and> load (prefixes_flags (sts ! k)) (padding + block_id) = Inr flag
      \<and> flag \<noteq> PREFIX_EMPTY
      \<and> load (if flag = PREFIX_PARTIAL then prefixes_partial_values (sts ! k)
                else prefixes_complete_values (sts ! k)) (padding + block_id) = Inr v
      \<and> tr' = tr @ concat (replicate (Suc k)
                   [Memory_fence_system, Load_volatile Flags (padding + block_id)])
                @ [Load_volatile (if flag = PREFIX_PARTIAL then Partial_values else Complete_values)
                     (padding + block_id)]"
proof (induction sts arbitrary: tr)
  case Nil
  then show ?case by simp
next
  case (Cons st sts)
  from Cons.prems obtain f where f: "load (prefixes_flags st) (padding + block_id) = Inr f"
    by (auto split: sum.splits)
  show ?case
  proof (cases "f = PREFIX_EMPTY")
    case True
    with Cons.prems f have "get_false padding block_id sts
        (tr @ [Memory_fence_system, Load_volatile Flags (padding + block_id)])
        = Some (Inr ((flag, v), tr'))"
      by (simp add: Let_def)
    from Cons.IH [OF this] obtain k where k: "k < length sts"
      and e: "\<forall>j < k. load (prefixes_flags (sts ! j)) (padding + block_id) = Inr PREFIX_EMPTY"
      and rest: "load (prefixes_flags (sts ! k)) (padding + block_id) = Inr flag"
        "flag \<noteq> PREFIX_EMPTY"
        "load (if flag = PREFIX_PARTIAL then prefixes_partial_values (sts ! k)
                else prefixes_complete_values (sts ! k)) (padding + block_id) = Inr v"
        "tr' = (tr @ [Memory_fence_system, Load_volatile Flags (padding + block_id)])
                @ concat (replicate (Suc k)
                   [Memory_fence_system, Load_volatile Flags (padding + block_id)])
                @ [Load_volatile (if flag = PREFIX_PARTIAL then Partial_values else Complete_values)
                     (padding + block_id)]"
      by blast
    have e': "\<forall>j < Suc k. load (prefixes_flags ((st # sts) ! j)) (padding + block_id) = Inr PREFIX_EMPTY"
      using e f True by (auto simp: less_Suc_eq_0_disj)
    from k e' rest show ?thesis
      by (intro exI [of _ "Suc k"]) (auto split: if_splits)
  next
    case False
    with Cons.prems f show ?thesis
      by (intro exI [of _ 0]) (auto simp: Let_def split: sum.splits if_splits)
  qed
qed

text \<open>
  C4. The setters store the value, fence, then store the flag (\<open>set_partial_false_Inr\<close>,
  \<open>set_complete_false_Inr\<close>). \<open>get\<close> fences \<^emph>\<open>before\<close> each load of the flag: between the
  load that sees a flag other than Empty and the load of the value there is no fence.
\<close>

theorem get_false_value_read_unfenced:
  "get_false 1 1 [mem_partial] [] =
     Some (Inr ((PREFIX_PARTIAL, 7),
       [Memory_fence_system, Load_volatile Flags 2, Load_volatile Partial_values 2]))
   \<and> get_false 1 1 [mem3, mem_partial] [] =
     Some (Inr ((PREFIX_PARTIAL, 7),
       [Memory_fence_system, Load_volatile Flags 2,
        Memory_fence_system, Load_volatile Flags 2, Load_volatile Partial_values 2]))"
  by (simp add: mem_partial_def mem3_def load_def)

subsection \<open>Segments of the reference scan\<close>

lemma segment_single: "segment scan_op rs lo (Suc lo) = rs ! lo"
  by (simp add: segment_def)

lemma segment_snoc:
  "lo < hi \<Longrightarrow> segment scan_op rs lo (Suc hi) = scan_op (segment scan_op rs lo hi) (rs ! hi)"
  by (simp add: segment_def)

lemma segment_assoc:
  assumes assoc: "\<And>x y z. scan_op (scan_op x y) z = scan_op x (scan_op y z)"
  shows "lo < mid \<Longrightarrow> mid < hi \<Longrightarrow>
     scan_op (segment scan_op rs lo mid) (segment scan_op rs mid hi) = segment scan_op rs lo hi"
proof (induction hi)
  case 0
  then show ?case by simp
next
  case (Suc hi)
  show ?case
  proof (cases "mid = hi")
    case True
    with Suc.prems show ?thesis by (simp add: segment_single segment_snoc)
  next
    case False
    with Suc.prems have lt: "mid < hi" by simp
    with Suc.prems have lo: "lo < hi" by simp
    have "scan_op (segment scan_op rs lo mid) (segment scan_op rs mid (Suc hi)) =
          scan_op (segment scan_op rs lo mid) (scan_op (segment scan_op rs mid hi) (rs ! hi))"
      using lt by (simp add: segment_snoc)
    also have "\<dots> = scan_op (scan_op (segment scan_op rs lo mid) (segment scan_op rs mid hi)) (rs ! hi)"
      by (simp add: assoc)
    also have "\<dots> = scan_op (segment scan_op rs lo hi) (rs ! hi)"
      using Suc.IH [OF Suc.prems(1) lt] by simp
    also have "\<dots> = segment scan_op rs lo (Suc hi)"
      using lo by (simp add: segment_snoc)
    finally show ?thesis .
  qed
qed

subsection \<open>One round of the look-back\<close>

lemma warp_reduce_Cons:
  "xs \<noteq> [] \<Longrightarrow> warp_reduce f (x # xs) =
     (case warp_reduce f xs of None \<Rightarrow> None | Some r \<Rightarrow> Some (f x r))"
  by (cases xs) simp_all

lemma warp_reduce_Some: "xs \<noteq> [] \<Longrightarrow> \<exists>r. warp_reduce f xs = Some r"
proof (induction xs)
  case Nil
  then show ?case by simp
next
  case (Cons x xs)
  then show ?case by (cases "xs = []") (auto simp: warp_reduce_Cons)
qed

lemma segment_last: "0 < x \<Longrightarrow> segment scan_op rs (x - Suc 0) x = rs ! (x - Suc 0)"
  by (simp add: segment_def)

lemma round_result:
  "lanes_ok scan_op rs x ps \<Longrightarrow> ps \<noteq> [] \<Longrightarrow> 0 < x \<Longrightarrow>
   warp_reduce (reverse_binary_op_wrapper (headflag_scan_op_wrapper scan_op))
     (map (\<lambda>(flag, block_prefix). (block_prefix, flag = PREFIX_COMPLETE)) ps) = Some r \<Longrightarrow>
   (if PREFIX_COMPLETE \<in> set (map fst ps)
    then fst r = reference_scan scan_op rs x
    else length ps < x \<and> fst r = segment scan_op rs (x - length ps) x)
   \<and> snd r = (PREFIX_COMPLETE \<in> set (map fst ps))"
proof (induction ps arbitrary: x r)
  case Nil
  then show ?case by simp
next
  case (Cons p ps)
  show ?case
  proof (cases "ps = []")
    case True
    with Cons.prems show ?thesis
      by (auto simp: segment_last)
  next
    case False
    let ?f = "reverse_binary_op_wrapper (headflag_scan_op_wrapper scan_op)"
    let ?vf = "map (\<lambda>(flag, block_prefix). (block_prefix, flag = PREFIX_COMPLETE))"
    from False obtain r' where r': "warp_reduce ?f (?vf ps) = Some r'"
      using warp_reduce_Some [of "?vf ps" ?f] by auto
    from False r' Cons.prems(4) have r: "r = ?f ((\<lambda>(flag, block_prefix). (block_prefix, flag = PREFIX_COMPLETE)) p) r'"
      by (simp add: warp_reduce_Cons)
    show ?thesis
    proof (cases "fst p = PREFIX_COMPLETE")
      case True
      with Cons.prems(1,3) r show ?thesis
        by (auto simp: reverse_binary_op_wrapper_def headflag_scan_op_wrapper_def split: prod.splits)
    next
      case notc: False
      with Cons.prems(1,3) have p: "p = (PREFIX_PARTIAL, rs ! (x - 1))" and x1: "1 < x"
        and ok: "lanes_ok scan_op rs (x - 1) ps"
        by auto
      from x1 have x0: "0 < x - 1" by simp
      note IH = Cons.IH [OF ok False x0 r']
      have rr: "r = (scan_op (fst r') (rs ! (x - 1)), snd r')"
        using r p by (simp add: reverse_binary_op_wrapper_def headflag_scan_op_wrapper_def)
      show ?thesis
      proof (cases "PREFIX_COMPLETE \<in> set (map fst ps)")
        case True
        with IH have "fst r' = reference_scan scan_op rs (x - 1)" and "snd r'" by auto
        with rr p True x1 show ?thesis
          using segment_snoc [of 0 "x - 1" scan_op rs]
          by (simp add: reference_scan_def)
      next
        case nc: False
        with IH have len: "length ps < x - 1"
          and fr: "fst r' = segment scan_op rs (x - 1 - length ps) (x - 1)" and "\<not> snd r'" by auto
        from False have lp: "0 < length ps" by simp
        with len have lt: "x - 1 - length ps < x - 1" by arith
        have sx: "Suc (x - 1) = x" using x1 by simp
        have seg: "segment scan_op rs (x - 1 - length ps) x =
            scan_op (segment scan_op rs (x - 1 - length ps) (x - 1)) (rs ! (x - 1))"
          using segment_snoc [OF lt, of scan_op rs] by (simp only: sx)
        have idx: "x - length (p # ps) = x - 1 - length ps" by simp
        have l2: "length (p # ps) < x" using len by simp
        have c2: "PREFIX_COMPLETE \<notin> set (map fst (p # ps))" using nc p by simp
        have "fst r = segment scan_op rs (x - length (p # ps)) x"
          unfolding idx seg using rr fr by simp
        moreover have "snd r = False" using rr \<open>\<not> snd r'\<close> by simp
        ultimately show ?thesis using l2 c2 by (simp only: if_False)
      qed
    qed
  qed
qed

lemma lanes_shift: "map (\<lambda>i. i - warp_size) (lanes warp_size x) = lanes warp_size (x - warp_size)"
  by (simp add: lanes_def)

lemma warp_all_not_complete:
  "warp_all (map (\<lambda>f. f \<noteq> PREFIX_COMPLETE) flag) \<longleftrightarrow> PREFIX_COMPLETE \<notin> set flag"
  by (auto simp: warp_all_def list_all_iff)

lemma reduce_round:
  assumes ok: "rounds_ok scan_state_get warp_size scan_op rs b"
    and x: "0 < x" "x \<le> b" and w: "0 < unat warp_size"
  shows "\<exists>flag pp. reduce_partial_prefixes scan_state_get scan_op (lanes warp_size (of_nat x))
            = Some (Inr (flag, pp))
          \<and> (if PREFIX_COMPLETE \<in> set flag then pp = reference_scan scan_op rs x
              else unat warp_size < x \<and> pp = segment scan_op rs (x - unat warp_size) x)"
proof -
  from ok x obtain got where got: "scan_state_get (lanes warp_size (of_nat x)) = Some (Inr got)"
    and len: "length got = unat warp_size" and lok: "lanes_ok scan_op rs x got"
    unfolding rounds_ok_def by blast
  from len w have ne: "got \<noteq> []" by auto
  let ?vf = "map (\<lambda>(flag, block_prefix). (block_prefix, flag = PREFIX_COMPLETE)) got"
  from ne have "?vf \<noteq> []" by simp
  from warp_reduce_Some [OF this]
  obtain r where r: "warp_reduce (reverse_binary_op_wrapper (headflag_scan_op_wrapper scan_op)) ?vf = Some r"
    by blast
  have red: "reduce_partial_prefixes scan_state_get scan_op (lanes warp_size (of_nat x))
      = Some (Inr (map fst got, fst r))"
    using got r by (simp add: reduce_partial_prefixes_def)
  from round_result [OF lok ne x(1) r] len red show ?thesis by auto
qed

subsection \<open>The rounds of the look-back\<close>

lemma of_nat_minus_warp:
  "unat (warp_size :: uint) \<le> x \<Longrightarrow> (of_nat x :: uint) - warp_size = of_nat (x - unat warp_size)"
  by (simp add: of_nat_diff)

lemma get_prefix_while_correct:
  assumes assoc: "\<And>x y z. scan_op (scan_op x y) z = scan_op x (scan_op y z)"
    and ok: "rounds_ok scan_state_get warp_size scan_op rs b"
    and w: "0 < unat warp_size"
  shows "0 < x \<Longrightarrow> x \<le> b \<Longrightarrow>
     (if PREFIX_COMPLETE \<in> set flag then prefix = reference_scan scan_op rs b
      else unat warp_size < x \<and> prefix = segment scan_op rs (x - unat warp_size) b) \<Longrightarrow>
     get_prefix_while warp_size scan_state_get scan_op (lanes warp_size (of_nat x)) flag prefix
       = Some (Inr (reference_scan scan_op rs b))"
proof (induction x arbitrary: flag prefix rule: less_induct)
  case (less x)
  show ?case
  proof (cases "PREFIX_COMPLETE \<in> set flag")
    case True
    with less.prems(3) show ?thesis
      by (subst get_prefix_while.simps) (simp add: warp_all_not_complete)
  next
    case False
    with less.prems(3) have wx: "unat warp_size < x"
      and pre: "prefix = segment scan_op rs (x - unat warp_size) b" by auto
    let ?x' = "x - unat warp_size"
    from wx w have x'0: "0 < ?x'" and x'x: "?x' < x" by auto
    from x'x less.prems(2) have x'b: "?x' \<le> b" and x'ltb: "?x' < b" by auto
    from reduce_round [OF ok x'0 x'b w] obtain flag' pp where
      red: "reduce_partial_prefixes scan_state_get scan_op (lanes warp_size (of_nat ?x')) = Some (Inr (flag', pp))"
      and res: "if PREFIX_COMPLETE \<in> set flag' then pp = reference_scan scan_op rs ?x'
                else unat warp_size < ?x' \<and> pp = segment scan_op rs (?x' - unat warp_size) ?x'"
      by blast
    have "unat warp_size \<le> x" using wx by simp
    then have "(of_nat x :: uint) - warp_size = of_nat ?x'" by (rule of_nat_minus_warp)
    then have ids: "map (\<lambda>i. i - warp_size) (lanes warp_size (of_nat x)) = lanes warp_size (of_nat ?x')"
      by (simp only: lanes_shift)
    have inv: "if PREFIX_COMPLETE \<in> set flag' then scan_op pp prefix = reference_scan scan_op rs b
               else unat warp_size < ?x' \<and> scan_op pp prefix = segment scan_op rs (?x' - unat warp_size) b"
    proof (cases "PREFIX_COMPLETE \<in> set flag'")
      case True
      with res have "pp = segment scan_op rs 0 ?x'" by (simp add: reference_scan_def)
      with pre True show ?thesis
        using segment_assoc [of scan_op 0 ?x' b rs, OF assoc x'0 x'ltb]
        by (simp add: reference_scan_def)
    next
      case nc: False
      with res have w': "unat warp_size < ?x'" and pp: "pp = segment scan_op rs (?x' - unat warp_size) ?x'"
        by auto
      from w' w have lt: "?x' - unat warp_size < ?x'" by auto
      from pre pp nc w' show ?thesis
        using segment_assoc [of scan_op "?x' - unat warp_size" ?x' b rs, OF assoc lt x'ltb]
        by simp
    qed
    have "get_prefix_while warp_size scan_state_get scan_op (lanes warp_size (of_nat x)) flag prefix
        = get_prefix_while warp_size scan_state_get scan_op (lanes warp_size (of_nat ?x')) flag' (scan_op pp prefix)"
      using False by (subst get_prefix_while.simps) (simp add: warp_all_not_complete ids red)
    also have "\<dots> = Some (Inr (reference_scan scan_op rs b))"
      by (rule less.IH [OF x'x x'0 x'b inv])
    finally show ?thesis .
  qed
qed

lemma get_prefix_correct:
  assumes assoc: "\<And>x y z. scan_op (scan_op x y) z = scan_op x (scan_op y z)"
    and ok: "rounds_ok scan_state_get warp_size scan_op rs b"
    and w: "0 < unat warp_size" and b: "0 < b"
  shows "get_prefix warp_size scan_state_get scan_op (of_nat b) = Some (Inr (reference_scan scan_op rs b))"
proof -
  from reduce_round [OF ok b order_refl w] obtain flag pp where
    red: "reduce_partial_prefixes scan_state_get scan_op (lanes warp_size (of_nat b)) = Some (Inr (flag, pp))"
    and res: "if PREFIX_COMPLETE \<in> set flag then pp = reference_scan scan_op rs b
              else unat warp_size < b \<and> pp = segment scan_op rs (b - unat warp_size) b"
    by blast
  have "get_prefix warp_size scan_state_get scan_op (of_nat b)
      = get_prefix_while warp_size scan_state_get scan_op (lanes warp_size (of_nat b)) flag pp"
    using red by (simp add: get_prefix_def lanes_def [symmetric])
  also have "\<dots> = Some (Inr (reference_scan scan_op rs b))"
    by (rule get_prefix_while_correct [OF assoc ok w b order_refl res])
  finally show ?thesis .
qed

subsection \<open>The look-back over the combined layout\<close>

text \<open>
  The word holds the value of a payload of 1, 2, 4 or 8 bytes, and not that of a payload
  of 16 bytes.
\<close>

lemma word_holds_value_sizes: "sizeof_T \<in> {1, 2, 4, 8} \<Longrightarrow> word_holds_value sizeof_T"
  by (auto simp: word_holds_value_def sizeof_prefix_underlying_type_def sizeof_flag_type_def)

lemma word_loses_value_16: "\<not> word_holds_value 16"
  by (simp add: word_holds_value_def sizeof_prefix_underlying_type_def sizeof_flag_type_def)

lemma load_lanes_Inr:
  "(\<forall>i \<in> set is. unat i < length xs) \<Longrightarrow> load_lanes xs is = Inr (map (\<lambda>i. xs ! unat i) is)"
  by (induction "is") (simp_all add: load_def)

lemma read_words_held:
  "word_holds_value sizeof_T \<Longrightarrow>
   map (\<lambda>(block_id, prefix). (fst prefix,
          if word_holds_value sizeof_T then snd prefix else indeterminate block_id))
     (zip block_ids (map f block_ids)) = map f block_ids"
  by (induction block_ids) simp_all

lemma get_true_returns:
  "word_holds_value sizeof_T \<Longrightarrow> sts \<noteq> [] \<Longrightarrow>
   (\<forall>st \<in> set sts. \<forall>id \<in> set ids. unat (padding + id) < length (prefixes st)) \<Longrightarrow>
   (\<forall>id \<in> set ids. fst (prefixes (last sts) ! unat (padding + id)) \<noteq> PREFIX_EMPTY) \<Longrightarrow>
   \<exists>st \<in> set sts.
      get_true sizeof_T indeterminate padding ids sts
        = Some (Inr (map (\<lambda>id. prefixes st ! unat (padding + id)) ids))
      \<and> (\<forall>id \<in> set ids. fst (prefixes st ! unat (padding + id)) \<noteq> PREFIX_EMPTY)"
proof (induction sts)
  case Nil
  then show ?case by simp
next
  case (Cons st sts)
  have ld: "load_lanes (prefixes st) (map (\<lambda>block_id. padding + block_id) ids)
      = Inr (map (\<lambda>id. prefixes st ! unat (padding + id)) ids)"
    using Cons.prems(3) by (simp add: load_lanes_Inr comp_def)
  note held = read_words_held [OF Cons.prems(1), of indeterminate ids
      "\<lambda>id. prefixes st ! unat (padding + id)"]
  show ?case
  proof (cases "\<forall>id \<in> set ids. fst (prefixes st ! unat (padding + id)) \<noteq> PREFIX_EMPTY")
    case True
    then have "\<not> warp_any (map (\<lambda>prefix. fst prefix = PREFIX_EMPTY)
        (map (\<lambda>id. prefixes st ! unat (padding + id)) ids))"
      by (auto simp: warp_any_def list_ex_iff)
    with ld True held show ?thesis by simp
  next
    case False
    then have any: "warp_any (map (\<lambda>prefix. fst prefix = PREFIX_EMPTY)
        (map (\<lambda>id. prefixes st ! unat (padding + id)) ids))"
      by (auto simp: warp_any_def list_ex_iff)
    from False Cons.prems(4) have ne: "sts \<noteq> []" by auto
    with Cons.prems have "\<exists>st' \<in> set sts.
      get_true sizeof_T indeterminate padding ids sts
        = Some (Inr (map (\<lambda>id. prefixes st' ! unat (padding + id)) ids))
      \<and> (\<forall>id \<in> set ids. fst (prefixes st' ! unat (padding + id)) \<noteq> PREFIX_EMPTY)"
      by (intro Cons.IH) auto
    with ld any show ?thesis by auto
  qed
qed

lemma lane_index:
  assumes x: "0 < x" and lane: "lane < unat (padding :: uint)"
    and bound: "unat padding + x \<le> 2 ^ 32"
  shows "unat (padding + (of_nat x - of_nat lane - 1)) = unat padding + x - 1 - lane"
proof -
  let ?n = "unat padding + x - 1 - lane"
  have "lane + 1 \<le> unat padding + x" using x lane by simp
  then have "(of_nat ?n :: uint) = of_nat (unat padding + x) - of_nat (lane + 1)"
    by (simp add: of_nat_diff)
  also have "\<dots> = padding + (of_nat x - of_nat lane - 1)"
    by simp
  finally have eq: "padding + (of_nat x - of_nat lane - 1) = of_nat ?n" by simp
  have "?n < 2 ^ 32" using x lane bound by simp
  then have "unat (of_nat ?n :: uint) = ?n"
    by (simp add: unat_of_nat)
  with eq show ?thesis by simp
qed

lemma slot_index_nat:
  "unat (padding :: uint) + j < 2 ^ 32 \<Longrightarrow> unat (padding + of_nat j) = unat padding + j"
proof -
  assume lt: "unat padding + j < 2 ^ 32"
  have "padding + of_nat j = of_nat (unat padding + j)" by simp
  then show ?thesis using lt by (simp only: unat_of_nat) simp
qed

text \<open>
  A memory in which every slot the protocol uses holds what it should leaves no room for
  a wrapped index: were \<open>padding + number_of_blocks\<close> above \<open>2^32\<close>, the slot of block
  \<open>2^32 - padding\<close> would be the padding slot 0, Invalid and not Invalid.
\<close>

lemma slot_ok_not_invalid: "slot_ok scan_op rs j p \<Longrightarrow> fst p \<noteq> PREFIX_INVALID"
  by (auto simp: slot_ok_def)

lemma protocol_state_no_wrap:
  assumes ps: "protocol_state padding number_of_blocks scan_op rs st"
  shows "unat padding + unat number_of_blocks \<le> 2 ^ 32"
proof (rule ccontr)
  assume "\<not> unat padding + unat number_of_blocks \<le> 2 ^ 32"
  then have over: "2 ^ 32 < unat padding + unat number_of_blocks" by simp
  have nlt: "unat number_of_blocks < 2 ^ 32" using unsigned_less [of number_of_blocks, where ?'a = nat] by simp
  have plt: "unat padding < 2 ^ 32" using unsigned_less [of padding, where ?'a = nat] by simp
  define j where "j = 2 ^ 32 - unat padding"
  from over nlt plt have j: "j < unat number_of_blocks" and w: "0 < unat padding"
    and sum: "unat padding + j = 2 ^ 32"
    unfolding j_def by arith+
  have "padding + of_nat j = of_nat (unat padding + j)" by simp
  then have "unat (padding + of_nat j) = (unat padding + j) mod 2 ^ 32"
    by (simp only: unat_of_nat) simp
  then have idx: "unat (padding + of_nat j) = 0" by (simp add: sum)
  from ps j have "slot_ok scan_op rs j (prefixes st ! unat (padding + of_nat j))"
    unfolding protocol_state_def by simp
  then have "fst (prefixes st ! 0) \<noteq> PREFIX_INVALID"
    unfolding idx by (rule slot_ok_not_invalid)
  moreover from ps w have "fst (prefixes st ! 0) = PREFIX_INVALID"
    unfolding protocol_state_def by simp
  ultimately show False by simp
qed

lemma protocol_stateD:
  assumes ps: "protocol_state padding number_of_blocks scan_op rs st"
  shows "length rs = unat number_of_blocks"
    and "i < unat padding \<Longrightarrow> i < length (prefixes st) \<and> fst (prefixes st ! i) = PREFIX_INVALID"
    and "j < length rs \<Longrightarrow> unat padding + j < length (prefixes st)
           \<and> slot_ok scan_op rs j (prefixes st ! (unat padding + j))"
proof -
  show len: "length rs = unat number_of_blocks" using ps unfolding protocol_state_def by simp
  show "i < unat padding \<Longrightarrow> i < length (prefixes st) \<and> fst (prefixes st ! i) = PREFIX_INVALID"
    using ps unfolding protocol_state_def by simp
  assume j: "j < length rs"
  have nlt: "unat number_of_blocks < 2 ^ 32" using unsigned_less [of number_of_blocks, where ?'a = nat] by simp
  from protocol_state_no_wrap [OF ps] j len have "unat padding + j < 2 ^ 32" by simp
  then have idx: "unat (padding + of_nat j) = unat padding + j" by (rule slot_index_nat)
  from ps j len have "unat (padding + of_nat j) < length (prefixes st)
      \<and> slot_ok scan_op rs j (prefixes st ! unat (padding + of_nat j))"
    unfolding protocol_state_def by simp
  then show "unat padding + j < length (prefixes st)
           \<and> slot_ok scan_op rs j (prefixes st ! (unat padding + j))"
    unfolding idx .
qed

lemma lane_head_ok:
  assumes ps: "protocol_state padding number_of_blocks scan_op rs st"
    and ne: "fst (prefixes st ! (unat padding + x - 1 - i)) \<noteq> PREFIX_EMPTY"
    and x: "0 < x" "x \<le> length rs" and i: "i < unat padding"
  shows "if x - i = 0 then fst (prefixes st ! (unat padding + x - 1 - i)) = PREFIX_INVALID
       else (prefixes st ! (unat padding + x - 1 - i) = (PREFIX_COMPLETE, reference_scan scan_op rs (x - i))
             \<or> (1 < x - i \<and> prefixes st ! (unat padding + x - 1 - i) = (PREFIX_PARTIAL, rs ! (x - i - 1))))"
proof -
  define k where "k = unat padding + x - 1 - i"
  define p where "p = prefixes st ! k"
  from ne have nep: "fst p \<noteq> PREFIX_EMPTY" by (simp add: p_def k_def)
  have goal: "if x - i = 0 then fst p = PREFIX_INVALID
       else (p = (PREFIX_COMPLETE, reference_scan scan_op rs (x - i))
             \<or> (1 < x - i \<and> p = (PREFIX_PARTIAL, rs ! (x - i - 1))))"
  proof (cases "x - i = 0")
    case True
    with x i have "k < unat padding" unfolding k_def by arith
    from protocol_stateD(2) [OF ps this] True show ?thesis by (simp add: p_def)
  next
    case False
    define j where "j = x - 1 - i"
    from False x have j: "j < length rs" and kj: "k = unat padding + j" and sj: "Suc j = x - i"
      and j1: "j = x - i - 1"
      unfolding j_def k_def by arith+
    from protocol_stateD(3) [OF ps j] have "slot_ok scan_op rs j p" by (simp add: p_def kj)
    with nep have "p = (PREFIX_COMPLETE, reference_scan scan_op rs (Suc j))
        \<or> (0 < j \<and> p = (PREFIX_PARTIAL, rs ! j))"
      unfolding slot_ok_def by blast
    then have "p = (PREFIX_COMPLETE, reference_scan scan_op rs (x - i))
        \<or> (1 < x - i \<and> p = (PREFIX_PARTIAL, rs ! (x - i - 1)))"
      unfolding sj j1 [symmetric] using sj by auto
    with False show ?thesis by (simp only: if_False)
  qed
  then show ?thesis unfolding p_def k_def .
qed

lemma lanes_ok_suffix:
  assumes ps: "protocol_state padding number_of_blocks scan_op rs st"
    and ne: "\<And>lane. lane < unat padding \<Longrightarrow>
               fst (prefixes st ! (unat padding + x - 1 - lane)) \<noteq> PREFIX_EMPTY"
    and x: "0 < x" "x \<le> length rs"
  shows "i \<le> unat padding \<Longrightarrow>
     lanes_ok scan_op rs (x - i)
       (map (\<lambda>lane. prefixes st ! (unat padding + x - 1 - lane)) [i..<unat padding])"
proof (induction n \<equiv> "unat padding - i" arbitrary: i)
  case 0
  then show ?case by simp
next
  case (Suc n)
  then have i: "i < unat padding" by arith
  have upt: "[i..<unat padding] = i # [Suc i..<unat padding]" using i by (rule upt_conv_Cons)
  have n: "n = unat padding - Suc i" using Suc.hyps(2) by arith
  have si: "Suc i \<le> unat padding" using i by arith
  have rest: "lanes_ok scan_op rs (x - Suc i)
       (map (\<lambda>lane. prefixes st ! (unat padding + x - 1 - lane)) [Suc i..<unat padding])"
    by (rule Suc.hyps(1) [OF n si])
  have sub: "x - i - 1 = x - Suc i" by arith
  note head = lane_head_ok [OF ps ne [OF i] x i]
  show ?case
    unfolding upt list.map lanes_ok.simps sub
    using head [unfolded sub] rest by (rule conjI)
qed

lemma published_D:
  assumes pub: "published padding b st" and j: "j < b" and lt: "unat padding + j < 2 ^ 32"
  shows "fst (prefixes st ! (unat padding + j)) \<noteq> PREFIX_EMPTY"
proof -
  from pub j have "fst (prefixes st ! unat (padding + of_nat j)) \<noteq> PREFIX_EMPTY"
    unfolding published_def by simp
  then show ?thesis unfolding slot_index_nat [OF lt] .
qed

lemma lanes_observed:
  assumes x: "0 < x" and bound: "unat padding + x \<le> 2 ^ 32"
  shows "map (\<lambda>id. prefixes st ! unat (padding + id)) (lanes padding (of_nat x))
       = map (\<lambda>lane. prefixes st ! (unat padding + x - 1 - lane)) [0..<unat padding]"
  unfolding lanes_def map_map comp_def
  by (rule map_cong [OF refl]) (simp add: lane_index [OF x _ bound])

lemma rounds_ok_get_true:
  assumes held: "word_holds_value sizeof_T"
    and mems: "\<And>ids. mems ids \<noteq> []
                 \<and> (\<forall>st \<in> set (mems ids). protocol_state padding number_of_blocks scan_op rs st)
                 \<and> published padding b (last (mems ids))"
    and b: "b \<le> length rs"
  shows "rounds_ok (\<lambda>ids. get_true sizeof_T indeterminate padding ids (mems ids)) padding scan_op rs b"
  unfolding rounds_ok_def
proof (intro allI impI)
  fix x assume "0 < x \<and> x \<le> b"
  then have x: "0 < x" "x \<le> b" by auto
  with b have xr: "x \<le> length rs" by simp
  let ?ids = "lanes padding (of_nat x)"
  let ?sts = "mems ?ids"
  from mems [of ?ids] have ne: "?sts \<noteq> []"
    and ps: "\<And>st. st \<in> set ?sts \<Longrightarrow> protocol_state padding number_of_blocks scan_op rs st"
    and pub: "published padding b (last ?sts)" by auto
  from ne have lastin: "last ?sts \<in> set ?sts" by simp
  have bound: "unat padding + length rs \<le> 2 ^ 32"
    using protocol_state_no_wrap [OF ps [OF lastin]] protocol_stateD(1) [OF ps [OF lastin]]
    by simp
  with xr have xb: "unat padding + x \<le> 2 ^ 32" by simp
  have idx: "\<And>id. id \<in> set ?ids \<Longrightarrow>
      \<exists>lane < unat padding. unat (padding + id) = unat padding + x - 1 - lane"
    unfolding lanes_def using lane_index [OF x(1) _ xb] by auto
  have inrange: "\<forall>st \<in> set ?sts. \<forall>id \<in> set ?ids. unat (padding + id) < length (prefixes st)"
  proof (intro ballI)
    fix st id assume st: "st \<in> set ?sts" and id: "id \<in> set ?ids"
    from idx [OF id] obtain lane where lane: "lane < unat padding"
      and k: "unat (padding + id) = unat padding + x - 1 - lane" by blast
    show "unat (padding + id) < length (prefixes st)"
    proof (cases "lane < x")
      case True
      define j where "j = x - 1 - lane"
      from True x xr have j: "j < length rs" and e: "unat padding + x - 1 - lane = unat padding + j"
        unfolding j_def by arith+
      from protocol_stateD(3) [OF ps [OF st] j] k e show ?thesis by simp
    next
      case False
      with lane x have "unat padding + x - 1 - lane < unat padding" by arith
      from protocol_stateD(2) [OF ps [OF st] this] k show ?thesis by simp
    qed
  qed
  have lastne: "\<forall>id \<in> set ?ids. fst (prefixes (last ?sts) ! unat (padding + id)) \<noteq> PREFIX_EMPTY"
  proof
    fix id assume id: "id \<in> set ?ids"
    from idx [OF id] obtain lane where lane: "lane < unat padding"
      and k: "unat (padding + id) = unat padding + x - 1 - lane" by blast
    show "fst (prefixes (last ?sts) ! unat (padding + id)) \<noteq> PREFIX_EMPTY"
    proof (cases "lane < x")
      case True
      define j where "j = x - 1 - lane"
      from True x have j: "j < b" and jx: "j < x"
        and e: "unat padding + x - 1 - lane = unat padding + j"
        unfolding j_def by arith+
      from jx xb have "unat padding + j < 2 ^ 32" by simp
      from published_D [OF pub j this] k e show ?thesis by simp
    next
      case False
      with lane x have "unat padding + x - 1 - lane < unat padding" by arith
      from protocol_stateD(2) [OF ps [OF lastin] this] k show ?thesis by simp
    qed
  qed
  from get_true_returns [OF held ne inrange lastne, of indeterminate]
  obtain st where st: "st \<in> set ?sts"
    and got: "get_true sizeof_T indeterminate padding ?ids ?sts
        = Some (Inr (map (\<lambda>id. prefixes st ! unat (padding + id)) ?ids))"
    and nonempty: "\<forall>id \<in> set ?ids. fst (prefixes st ! unat (padding + id)) \<noteq> PREFIX_EMPTY"
    by blast
  let ?got = "map (\<lambda>lane. prefixes st ! (unat padding + x - 1 - lane)) [0..<unat padding]"
  have eq: "map (\<lambda>id. prefixes st ! unat (padding + id)) ?ids = ?got"
    by (rule lanes_observed [OF x(1) xb])
  have ne_lane: "\<And>lane. lane < unat padding \<Longrightarrow>
      fst (prefixes st ! (unat padding + x - 1 - lane)) \<noteq> PREFIX_EMPTY"
  proof -
    fix lane assume lane: "lane < unat padding"
    then have "?got ! lane = prefixes st ! (unat padding + x - 1 - lane)" by simp
    moreover have "?got ! lane \<in> set ?got" using lane by (intro nth_mem) simp
    ultimately have "prefixes st ! (unat padding + x - 1 - lane) \<in> set (map (\<lambda>id. prefixes st ! unat (padding + id)) ?ids)"
      unfolding eq by simp
    with nonempty show "fst (prefixes st ! (unat padding + x - 1 - lane)) \<noteq> PREFIX_EMPTY" by auto
  qed
  have "lanes_ok scan_op rs (x - 0) (map (\<lambda>lane. prefixes st ! (unat padding + x - 1 - lane)) [0..<unat padding])"
    by (rule lanes_ok_suffix [OF ps [OF st] ne_lane x(1) xr]) simp_all
  then have "lanes_ok scan_op rs x ?got" by simp
  moreover have "length ?got = unat padding" by simp
  ultimately show "\<exists>got. get_true sizeof_T indeterminate padding ?ids ?sts = Some (Inr got)
      \<and> length got = unat padding \<and> lanes_ok scan_op rs x got"
    using got unfolding eq by blast
qed

lemma set_true_Inr:
  "set_true sizeof_T junk padding block_id flag v st = Inr st1 \<longleftrightarrow>
     unat (padding + block_id) < length (prefixes st)
     \<and> st1 = st\<lparr>prefixes := (prefixes st)[unat (padding + block_id) :=
                  (flag, if word_holds_value sizeof_T then v else junk)]\<rparr>"
  unfolding set_true_def store_def by auto

lemmas round_eval = reduce_partial_prefixes_def load_def warp_any_def
  headflag_scan_op_wrapper_def reverse_binary_op_wrapper_def word_holds_value_def
  sizeof_prefix_underlying_type_def sizeof_flag_type_def last_nonzero_def

lemmas set_true_eval = set_partial_true_def set_complete_true_def set_true_def store_def
  word_holds_value_def sizeof_prefix_underlying_type_def sizeof_flag_type_def

text \<open>
  C1, amended. The payload has 1, 2, 4 or 8 bytes. Block \<open>b\<close>, \<open>0 < b < N\<close>, runs the
  operator with its reduction. The operator is associative. While the warp polls, memory
  holds what initialisation and the protocol leave there (\<open>protocol_state\<close>: every padding
  slot is in the array and Invalid; the slot of every block is in the array and Empty, or
  Partial with the block's reduction, or Complete with the block's inclusive total; the
  slot of block 0 is never Partial), and in the end every block before \<open>b\<close> has
  published. Then the operator returns the left-to-right combination of the reductions
  of the blocks \<open>0, ..., b - 1\<close> and leaves \<open>(Complete, combine(prefix, reduction))\<close> in
  the slot of block \<open>b\<close>.
\<close>

theorem prefix_op_correct:
  assumes assoc: "\<forall>x y z. scan_op (scan_op x y) z = scan_op x (scan_op y z)"
    and payload: "sizeof_T \<in> {1, 2, 4, 8}"
    and w: "0 < unat padding" and b0: "0 < b" and bN: "b < length rs"
    and mems: "\<forall>ids. mems ids \<noteq> []
                  \<and> (\<forall>st \<in> set (mems ids). protocol_state padding number_of_blocks scan_op rs st)
                  \<and> published padding b (last (mems ids))"
    and own: "unat padding + b < length (prefixes st)"
  shows "prefix_op padding (set_partial_true sizeof_T junk padding)
           (set_complete_true sizeof_T junk padding)
           (\<lambda>ids. get_true sizeof_T indeterminate padding ids (mems ids)) scan_op
           (of_nat b) (rs ! b) st
         = Some (Inr (reference_scan scan_op rs b,
                      st\<lparr>prefixes := (prefixes st)[unat padding + b :=
                           (PREFIX_COMPLETE, scan_op (reference_scan scan_op rs b) (rs ! b))]\<rparr>))"
proof -
  have a: "\<And>x y z. scan_op (scan_op x y) z = scan_op x (scan_op y z)" using assoc by blast
  have held: "word_holds_value sizeof_T" using payload by (rule word_holds_value_sizes)
  have m: "\<And>ids. mems ids \<noteq> []
      \<and> (\<forall>st \<in> set (mems ids). protocol_state padding number_of_blocks scan_op rs st)
      \<and> published padding b (last (mems ids))" using mems by blast
  from bN have bl: "b \<le> length rs" by simp
  define G where "G = (\<lambda>ids. get_true sizeof_T indeterminate padding ids (mems ids))"
  have ok: "rounds_ok G padding scan_op rs b"
    unfolding G_def by (rule rounds_ok_get_true [OF held m bl])
  have gp: "get_prefix padding G scan_op (of_nat b) = Some (Inr (reference_scan scan_op rs b))"
    by (rule get_prefix_correct [OF a ok w b0])
  from m [of "[]"] have "protocol_state padding number_of_blocks scan_op rs (last (mems []))"
    by simp
  from protocol_state_no_wrap [OF this] protocol_stateD(1) [OF this] bN
  have "unat padding + b < 2 ^ 32" by simp
  then have idx: "unat (padding + of_nat b) = unat padding + b" by (rule slot_index_nat)
  have sp: "set_partial_true sizeof_T junk padding (of_nat b) (rs ! b) st
      = Inr (st\<lparr>prefixes := (prefixes st)[unat padding + b := (PREFIX_PARTIAL, rs ! b)]\<rparr>)"
    using own held by (simp add: set_partial_true_def set_true_Inr idx)
  have sc: "set_complete_true sizeof_T junk padding (of_nat b)
        (scan_op (reference_scan scan_op rs b) (rs ! b))
        (st\<lparr>prefixes := (prefixes st)[unat padding + b := (PREFIX_PARTIAL, rs ! b)]\<rparr>)
      = Inr (st\<lparr>prefixes := (prefixes st)[unat padding + b :=
                   (PREFIX_COMPLETE, scan_op (reference_scan scan_op rs b) (rs ! b))]\<rparr>)"
    using own held by (simp add: set_complete_true_def set_true_Inr idx)
  show ?thesis
    unfolding prefix_op_def G_def [symmetric] by (simp add: sp gp sc)
qed

theorem prefix_op_correct_witness:
  "(\<forall>x y z. last_nonzero (last_nonzero x y) z = last_nonzero x (last_nonzero y z))
   \<and> (8 :: nat) \<in> {1, 2, 4, 8}
   \<and> 0 < unat (2 :: uint) \<and> (0::nat) < 4 \<and> 4 < length rs5
   \<and> (\<forall>ids :: uint list. [st_run] \<noteq> []
         \<and> (\<forall>st \<in> set [st_run]. protocol_state 2 5 last_nonzero rs5 st)
         \<and> published 2 4 (last [st_run]))
   \<and> unat (2 :: uint) + 4 < length (prefixes st_run)
   \<and> prefix_op 2 (set_partial_true 8 0 2) (set_complete_true 8 0 2)
           (\<lambda>ids. get_true 8 (\<lambda>block_id. 0) 2 ids [st_run]) last_nonzero 4 9 st_run
         = Some (Inr (7,
             \<lparr>prefixes = [(PREFIX_INVALID, 41), (PREFIX_INVALID, 42), (PREFIX_COMPLETE, 3),
               (PREFIX_PARTIAL, 5), (PREFIX_PARTIAL, 7), (PREFIX_PARTIAL, 0),
               (PREFIX_COMPLETE, 9)]\<rparr>))"
proof -
  have h1: "\<forall>x y z. last_nonzero (last_nonzero x y) z = last_nonzero x (last_nonzero y z)"
    by (simp add: last_nonzero_def)
  have h2: "(8 :: nat) \<in> {1, 2, 4, 8}" by simp
  have h3: "0 < unat (2 :: uint)" by simp
  have h4: "(0::nat) < 4" by simp
  have h5: "4 < length rs5" by (simp add: rs5_def)
  have ps: "protocol_state 2 5 last_nonzero rs5 st_run" by code_simp
  have pub: "published 2 4 st_run" by code_simp
  have h6: "\<forall>ids :: uint list. [st_run] \<noteq> []
         \<and> (\<forall>st \<in> set [st_run]. protocol_state 2 5 last_nonzero rs5 st)
         \<and> published 2 4 (last [st_run])" using ps pub by simp
  have h7: "unat (2 :: uint) + 4 < length (prefixes st_run)" by (simp add: st_run_def)
  have r1: "reference_scan last_nonzero rs5 4 = 7" by code_simp
  have r2: "rs5 ! 4 = 9" by (simp add: rs5_def)
  from prefix_op_correct [where mems = "\<lambda>_. [st_run]" and junk = 0
      and indeterminate = "\<lambda>block_id. 0", OF h1 h2 h3 h4 h5 h6 h7]
  have "prefix_op 2 (set_partial_true 8 0 2) (set_complete_true 8 0 2)
           (\<lambda>ids. get_true 8 (\<lambda>block_id. 0) 2 ids [st_run]) last_nonzero 4 9 st_run
         = Some (Inr (7,
             \<lparr>prefixes = [(PREFIX_INVALID, 41), (PREFIX_INVALID, 42), (PREFIX_COMPLETE, 3),
               (PREFIX_PARTIAL, 5), (PREFIX_PARTIAL, 7), (PREFIX_PARTIAL, 0),
               (PREFIX_COMPLETE, 9)]\<rparr>))"
    by (simp add: r1 r2) (simp add: st_run_def last_nonzero_def)
  with h1 h2 h3 h4 h5 h6 h7 show ?thesis by blast
qed

text \<open>
  C1, as stated, fails when block 0 follows the protocol of the other blocks and
  publishes Partial first. Blocks 0, 1 and 2 have published their reductions 3, 5 and 7
  as partial; block 3 looks back: no lane of the second round sees Complete (block 0 is
  partial, the padding slot Invalid), and the third round loads outside the array. The
  claim promises the prefix 7.
\<close>

theorem block0_partial_counterexample:
  "(case set_partial_true 8 0 2 0 3 st_init of Inl e \<Rightarrow> False | Inr s1 \<Rightarrow>
      (case set_partial_true 8 0 2 1 5 s1 of Inl e \<Rightarrow> False | Inr s2 \<Rightarrow>
         set_partial_true 8 0 2 2 7 s2 = Inr st_all_partial))
   \<and> prefix_op 2 (set_partial_true 8 0 2) (set_complete_true 8 0 2)
           (\<lambda>ids. get_true 8 (\<lambda>block_id. 0) 2 ids [st_all_partial]) last_nonzero 3 0 st_all_partial
       = Some (Inl OutOfRange)
   \<and> reference_scan last_nonzero rs5 3 = 7"
proof -
  define G where "G = (\<lambda>ids. get_true 8 (\<lambda>block_id. 0 :: u64) 2 ids [st_all_partial])"
  have r0: "reduce_partial_prefixes G last_nonzero [2, 1]
      = Some (Inr ([PREFIX_PARTIAL, PREFIX_PARTIAL], 7))"
    unfolding G_def by (simp add: round_eval st_all_partial_def)
  have r1: "reduce_partial_prefixes G last_nonzero [0, - 1]
      = Some (Inr ([PREFIX_PARTIAL, PREFIX_INVALID], 3))"
    unfolding G_def by (simp add: round_eval st_all_partial_def)
  have r2: "reduce_partial_prefixes G last_nonzero [- 2, - 3] = Some (Inl OutOfRange)"
    unfolding G_def by (simp add: round_eval st_all_partial_def unat_m1)
  have m: "last_nonzero 3 7 = 7" by (simp add: last_nonzero_def)
  have w2: "get_prefix_while 2 G last_nonzero [0, - 1] [PREFIX_PARTIAL, PREFIX_INVALID] 7
      = Some (Inl OutOfRange)"
    by (subst get_prefix_while.simps) (simp add: warp_all_def r2)
  have w1: "get_prefix_while 2 G last_nonzero [2, 1] [PREFIX_PARTIAL, PREFIX_PARTIAL] 7
      = Some (Inl OutOfRange)"
    by (subst get_prefix_while.simps) (simp add: warp_all_def r1 m w2)
  have ids: "map (\<lambda>lane_id. (3::uint) - of_nat lane_id - 1) [0..<unat (2::uint)] = [2, 1]"
    by (simp add: upt_rec)
  have gp: "get_prefix 2 G last_nonzero 3 = Some (Inl OutOfRange)"
    unfolding get_prefix_def ids by (simp add: r0 w1)
  have reach: "(case set_partial_true 8 0 2 0 3 st_init of Inl e \<Rightarrow> False | Inr s1 \<Rightarrow>
      (case set_partial_true 8 0 2 1 5 s1 of Inl e \<Rightarrow> False | Inr s2 \<Rightarrow>
         set_partial_true 8 0 2 2 7 s2 = Inr st_all_partial))"
    by (simp add: set_true_eval st_init_def st_all_partial_def)
  have po: "prefix_op 2 (set_partial_true 8 0 2) (set_complete_true 8 0 2) G last_nonzero 3 0
      st_all_partial = Some (Inl OutOfRange)"
    unfolding prefix_op_def
    by (simp add: gp set_true_eval st_all_partial_def)
  have r: "reference_scan last_nonzero rs5 3 = 7" by code_simp
  from reach po r show ?thesis unfolding G_def by blast
qed

text \<open>
  With a payload of 16 bytes the value a block publishes does not reach its readers:
  whatever \<open>set_complete\<close> is given, \<open>get\<close> returns what the lane reads beyond the word.
\<close>

lemma payload_16_value_lost:
  assumes "set_complete_true 16 junk 2 0 v st_init = Inr st'"
  shows "get_true 16 indeterminate 2 [0] [st']
       = Some (Inr [(PREFIX_COMPLETE, indeterminate 0)])"
  using assms
  by (auto simp: set_true_eval st_init_def load_def warp_any_def)

subsection \<open>The reduction of a round and the merge of rounds\<close>

lemma through_first_complete_Nil [simp]: "through_first_complete ps = [] \<longleftrightarrow> ps = []"
  by (cases ps) auto

lemma grid_order_combination_Cons:
  "ps \<noteq> [] \<Longrightarrow> grid_order_combination scan_op (p # ps) =
     (if fst p = PREFIX_COMPLETE then snd p
      else scan_op (grid_order_combination scan_op ps) (snd p))"
  by (simp add: grid_order_combination_def Let_def)

lemma warp_reduce_headflag:
  "got \<noteq> [] \<Longrightarrow>
   \<exists>r. warp_reduce (reverse_binary_op_wrapper (headflag_scan_op_wrapper scan_op))
         (map (\<lambda>(flag, block_prefix). (block_prefix, flag = PREFIX_COMPLETE)) got) = Some r
       \<and> fst r = grid_order_combination scan_op got"
proof (induction got)
  case Nil
  then show ?case by simp
next
  case (Cons p ps)
  show ?case
  proof (cases "ps = []")
    case True
    then show ?thesis by (simp add: grid_order_combination_def split: prod.splits)
  next
    case False
    from Cons.IH [OF False] obtain r' where
      r': "warp_reduce (reverse_binary_op_wrapper (headflag_scan_op_wrapper scan_op))
         (map (\<lambda>(flag, block_prefix). (block_prefix, flag = PREFIX_COMPLETE)) ps) = Some r'"
      and f: "fst r' = grid_order_combination scan_op ps" by blast
    let ?f = "reverse_binary_op_wrapper (headflag_scan_op_wrapper scan_op)"
    let ?vf = "\<lambda>(flag, block_prefix). (block_prefix, flag = PREFIX_COMPLETE)"
    from False have "map ?vf ps \<noteq> []" by simp
    from warp_reduce_Cons [OF this, of ?f "?vf p"]
    have "warp_reduce ?f (?vf p # map ?vf ps) = Some (?f (?vf p) r')"
      by (simp only: r' option.case)
    then have red: "warp_reduce ?f (map ?vf (p # ps)) = Some (?f (?vf p) r')" by simp
    have "fst (?f (?vf p) r') = grid_order_combination scan_op (p # ps)"
      using False f
      by (cases p) (simp add: grid_order_combination_Cons reverse_binary_op_wrapper_def
            headflag_scan_op_wrapper_def)
    with red show ?thesis by blast
  qed
qed

text \<open>
  C2. In a round, lane \<open>i\<close> holding the record of its predecessor, the reduction leaves in
  lane 0 the combination, in grid order, of the values of the lanes up to and including
  the first lane that saw Complete (of all lanes when none did). The loop stops when a
  lane of the last round saw Complete; otherwise it moves the lanes back by the warp
  size and merges the new round's result as the first operand:
  \<open>prefix = scan_op(partial_prefix, prefix)\<close>.
\<close>

theorem round_reduction_and_merge:
  assumes got: "scan_state_get (map (\<lambda>i. i - warp_size) previous_block_id) = Some (Inr got)"
    and ne: "got \<noteq> []"
  shows "reduce_partial_prefixes scan_state_get scan_op (map (\<lambda>i. i - warp_size) previous_block_id)
           = Some (Inr (map fst got, grid_order_combination scan_op got))
     \<and> (PREFIX_COMPLETE \<notin> set flag \<longrightarrow>
          get_prefix_while warp_size scan_state_get scan_op previous_block_id flag prefix
          = get_prefix_while warp_size scan_state_get scan_op
              (map (\<lambda>i. i - warp_size) previous_block_id) (map fst got)
              (scan_op (grid_order_combination scan_op got) prefix))
     \<and> (PREFIX_COMPLETE \<in> set flag \<longrightarrow>
          get_prefix_while warp_size scan_state_get scan_op previous_block_id flag prefix
          = Some (Inr prefix))"
proof -
  from warp_reduce_headflag [OF ne, of scan_op] obtain r where
    r: "warp_reduce (reverse_binary_op_wrapper (headflag_scan_op_wrapper scan_op))
         (map (\<lambda>(flag, block_prefix). (block_prefix, flag = PREFIX_COMPLETE)) got) = Some r"
    and f: "fst r = grid_order_combination scan_op got" by blast
  have red: "reduce_partial_prefixes scan_state_get scan_op (map (\<lambda>i. i - warp_size) previous_block_id)
           = Some (Inr (map fst got, grid_order_combination scan_op got))"
    using got r f by (simp add: reduce_partial_prefixes_def)
  have cont: "PREFIX_COMPLETE \<notin> set flag \<Longrightarrow>
          get_prefix_while warp_size scan_state_get scan_op previous_block_id flag prefix
          = get_prefix_while warp_size scan_state_get scan_op
              (map (\<lambda>i. i - warp_size) previous_block_id) (map fst got)
              (scan_op (grid_order_combination scan_op got) prefix)"
    by (subst get_prefix_while.simps) (simp add: warp_all_not_complete red)
  have stop: "PREFIX_COMPLETE \<in> set flag \<Longrightarrow>
          get_prefix_while warp_size scan_state_get scan_op previous_block_id flag prefix
          = Some (Inr prefix)"
    by (subst get_prefix_while.simps) (simp add: warp_all_not_complete)
  from red cont stop show ?thesis by blast
qed

theorem round_reduction_and_merge_witness:
  "get_true 8 (\<lambda>block_id. 0) 2 (map (\<lambda>i. i - 2) [3, 2]) [st_run]
     = Some (Inr [(PREFIX_PARTIAL, 5), (PREFIX_COMPLETE, 3)])
   \<and> [(PREFIX_PARTIAL, 5 :: u64), (PREFIX_COMPLETE, 3)] \<noteq> []
   \<and> reduce_partial_prefixes (\<lambda>ids. get_true 8 (\<lambda>block_id. 0) 2 ids [st_run]) last_nonzero
         (map (\<lambda>i. i - 2) [3, 2])
       = Some (Inr ([PREFIX_PARTIAL, PREFIX_COMPLETE], 5))
   \<and> get_prefix_while 2 (\<lambda>ids. get_true 8 (\<lambda>block_id. 0) 2 ids [st_run]) last_nonzero [3, 2]
         [PREFIX_PARTIAL, PREFIX_PARTIAL] 7
       = get_prefix_while 2 (\<lambda>ids. get_true 8 (\<lambda>block_id. 0) 2 ids [st_run]) last_nonzero
         (map (\<lambda>i. i - 2) [3, 2]) [PREFIX_PARTIAL, PREFIX_COMPLETE] (last_nonzero 5 7)"
proof -
  define G where "G = (\<lambda>ids. get_true 8 (\<lambda>block_id. 0 :: u64) 2 ids [st_run])"
  have g: "G (map (\<lambda>i. i - 2) [3, 2]) = Some (Inr [(PREFIX_PARTIAL, 5), (PREFIX_COMPLETE, 3)])"
    unfolding G_def
    by (simp add: st_run_def load_def warp_any_def word_holds_value_def
          sizeof_prefix_underlying_type_def sizeof_flag_type_def)
  have ne: "[(PREFIX_PARTIAL, 5 :: u64), (PREFIX_COMPLETE, 3)] \<noteq> []" by simp
  have c: "grid_order_combination last_nonzero [(PREFIX_PARTIAL, 5), (PREFIX_COMPLETE, 3)] = 5"
    by (simp add: grid_order_combination_def last_nonzero_def)
  have f: "PREFIX_COMPLETE \<notin> set [PREFIX_PARTIAL, PREFIX_PARTIAL]" by simp
  note inst = round_reduction_and_merge
    [of G 2 "[3, 2]" _ last_nonzero "[PREFIX_PARTIAL, PREFIX_PARTIAL]" 7, OF g ne]
  from inst have c1: "reduce_partial_prefixes G last_nonzero (map (\<lambda>i. i - 2) [3, 2])
       = Some (Inr ([PREFIX_PARTIAL, PREFIX_COMPLETE], 5))"
    unfolding c by simp
  from inst f have c2: "get_prefix_while 2 G last_nonzero [3, 2] [PREFIX_PARTIAL, PREFIX_PARTIAL] 7
       = get_prefix_while 2 G last_nonzero (map (\<lambda>i. i - 2) [3, 2])
           [PREFIX_PARTIAL, PREFIX_COMPLETE] (last_nonzero 5 7)"
    unfolding c by simp
  from g ne c1 c2 show ?thesis unfolding G_def by blast
qed

subsection \<open>Blocks next to the grid boundary\<close>

lemma lanes_ok_complete:
  "lanes_ok scan_op rs x ps \<Longrightarrow> 0 < x \<Longrightarrow> x \<le> length ps \<Longrightarrow>
   PREFIX_COMPLETE \<in> set (map fst ps)"
proof (induction ps arbitrary: x)
  case Nil
  then show ?case by simp
next
  case (Cons p ps)
  show ?case
  proof (cases "fst p = PREFIX_COMPLETE")
    case True
    then show ?thesis by simp
  next
    case False
    with Cons.prems(1,2) have x1: "1 < x" and ok: "lanes_ok scan_op rs (x - 1) ps" by auto
    from x1 Cons.prems(3) have "0 < x - 1" "x - 1 \<le> length ps" by auto
    from Cons.IH [OF ok this] show ?thesis by simp
  qed
qed

text \<open>
  C3, amended. The payload has 1, 2, 4 or 8 bytes. For \<open>0 < b < W\<close>, under the protocol
  (the slot of block 0 is never Partial): every lane of the first round reads inside the
  array, at an index below \<open>padding + number_of_blocks\<close>, the lanes beyond block 0 read
  padding slots, a lane of the first round sees Complete, so the walk ends with that
  round, and the prefix is the reference scan over the blocks \<open>0, ..., b - 1\<close>. The walk
  is ended by the Complete record of block 0, not by the padding.
\<close>

theorem lookback_near_boundary:
  assumes assoc: "\<forall>x y z. scan_op (scan_op x y) z = scan_op x (scan_op y z)"
    and payload: "sizeof_T \<in> {1, 2, 4, 8}"
    and b0: "0 < b" and bW: "b < unat padding" and bN: "b < length rs"
    and mems: "\<forall>ids. mems ids \<noteq> []
                  \<and> (\<forall>st \<in> set (mems ids). protocol_state padding number_of_blocks scan_op rs st)
                  \<and> published padding b (last (mems ids))"
  shows "(\<forall>lane < unat padding.
            unat (padding + (of_nat b - of_nat lane - 1)) < unat padding + unat number_of_blocks
            \<and> (\<forall>ids. \<forall>st \<in> set (mems ids).
                  unat (padding + (of_nat b - of_nat lane - 1)) < length (prefixes st))
            \<and> (b \<le> lane \<longrightarrow> unat (padding + (of_nat b - of_nat lane - 1)) < unat padding))
     \<and> (\<exists>flag. reduce_partial_prefixes
                  (\<lambda>ids. get_true sizeof_T indeterminate padding ids (mems ids)) scan_op
                  (map (\<lambda>lane_id. of_nat b - of_nat lane_id - 1) [0..<unat padding])
                = Some (Inr (flag, reference_scan scan_op rs b))
              \<and> PREFIX_COMPLETE \<in> set flag)
     \<and> get_prefix padding (\<lambda>ids. get_true sizeof_T indeterminate padding ids (mems ids))
           scan_op (of_nat b)
         = Some (Inr (reference_scan scan_op rs b))"
proof -
  have a: "\<And>x y z. scan_op (scan_op x y) z = scan_op x (scan_op y z)" using assoc by blast
  have held: "word_holds_value sizeof_T" using payload by (rule word_holds_value_sizes)
  have m: "\<And>ids. mems ids \<noteq> []
      \<and> (\<forall>st \<in> set (mems ids). protocol_state padding number_of_blocks scan_op rs st)
      \<and> published padding b (last (mems ids))" using mems by blast
  have ps: "\<And>ids st. st \<in> set (mems ids) \<Longrightarrow>
      protocol_state padding number_of_blocks scan_op rs st" using m by blast
  from bN have bl: "b \<le> length rs" by simp
  from b0 bW have w: "0 < unat padding" by simp
  from m [of "[]"] have ps0: "protocol_state padding number_of_blocks scan_op rs (last (mems []))"
    by simp
  note len = protocol_stateD(1) [OF ps0]
  from protocol_state_no_wrap [OF ps0] len bl have xb: "unat padding + b \<le> 2 ^ 32" by simp
  define G where "G = (\<lambda>ids. get_true sizeof_T indeterminate padding ids (mems ids))"
  have ok: "rounds_ok G padding scan_op rs b"
    unfolding G_def by (rule rounds_ok_get_true [OF held m bl])
  have gp: "get_prefix padding G scan_op (of_nat b) = Some (Inr (reference_scan scan_op rs b))"
    by (rule get_prefix_correct [OF a ok w b0])
  from ok b0 obtain got where
    got: "G (lanes padding (of_nat b)) = Some (Inr got)"
    and lg: "length got = unat padding" and lok: "lanes_ok scan_op rs b got"
    unfolding rounds_ok_def by blast
  from lg w have ne: "got \<noteq> []" by auto
  from lg bW have "b \<le> length got" by simp
  from lanes_ok_complete [OF lok b0 this] have c: "PREFIX_COMPLETE \<in> set (map fst got)" .
  from ne have "map (\<lambda>(flag, block_prefix). (block_prefix, flag = PREFIX_COMPLETE)) got \<noteq> []" by simp
  from warp_reduce_Some [OF this] obtain r where
    r: "warp_reduce (reverse_binary_op_wrapper (headflag_scan_op_wrapper scan_op))
         (map (\<lambda>(flag, block_prefix). (block_prefix, flag = PREFIX_COMPLETE)) got) = Some r"
    by blast
  from round_result [OF lok ne b0 r] c have fr: "fst r = reference_scan scan_op rs b" by simp
  have "reduce_partial_prefixes G scan_op
          (lanes padding (of_nat b)) = Some (Inr (map fst got, reference_scan scan_op rs b))"
    using got r fr by (simp add: reduce_partial_prefixes_def)
  with c have first: "\<exists>flag. reduce_partial_prefixes G scan_op
                  (map (\<lambda>lane_id. of_nat b - of_nat lane_id - 1) [0..<unat padding])
                = Some (Inr (flag, reference_scan scan_op rs b))
              \<and> PREFIX_COMPLETE \<in> set flag"
    unfolding lanes_def by blast
  have inside: "\<forall>lane < unat padding.
            unat (padding + (of_nat b - of_nat lane - 1)) < unat padding + unat number_of_blocks
            \<and> (\<forall>ids. \<forall>st \<in> set (mems ids).
                  unat (padding + (of_nat b - of_nat lane - 1)) < length (prefixes st))
            \<and> (b \<le> lane \<longrightarrow> unat (padding + (of_nat b - of_nat lane - 1)) < unat padding)"
  proof (intro allI impI conjI ballI)
    fix lane assume lane: "lane < unat padding"
    note idx = lane_index [OF b0 lane xb]
    define k where "k = unat padding + b - 1 - lane"
    have ik: "unat (padding + (of_nat b - of_nat lane - 1)) = k" unfolding k_def by (rule idx)
    from b0 lane bN len have "k < unat padding + unat number_of_blocks"
      unfolding k_def by arith
    then show "unat (padding + (of_nat b - of_nat lane - 1)) < unat padding + unat number_of_blocks"
      unfolding ik .
    {
      assume "b \<le> lane"
      with b0 lane have "k < unat padding" unfolding k_def by arith
      then show "unat (padding + (of_nat b - of_nat lane - 1)) < unat padding"
        unfolding ik .
    }
    fix ids st assume st: "st \<in> set (mems ids)"
    have "k < length (prefixes st)"
    proof (cases "lane < b")
      case True
      define j where "j = b - 1 - lane"
      from True bN have j: "j < length rs" and e: "k = unat padding + j"
        unfolding j_def k_def by arith+
      from protocol_stateD(3) [OF ps [OF st] j] show ?thesis unfolding e by simp
    next
      case False
      with b0 lane have "k < unat padding" unfolding k_def by arith
      from protocol_stateD(2) [OF ps [OF st] this] show ?thesis by simp
    qed
    then show "unat (padding + (of_nat b - of_nat lane - 1)) < length (prefixes st)"
      unfolding ik .
  qed
  from inside first gp show ?thesis unfolding G_def by blast
qed

theorem lookback_near_boundary_witness:
  "(\<forall>x y z. last_nonzero (last_nonzero x y) z = last_nonzero x (last_nonzero y z))
   \<and> (8 :: nat) \<in> {1, 2, 4, 8}
   \<and> (0::nat) < 2 \<and> 2 < unat (4 :: uint) \<and> 2 < length rs5
   \<and> (\<forall>ids :: uint list. [st_near] \<noteq> []
         \<and> (\<forall>st \<in> set [st_near]. protocol_state 4 5 last_nonzero rs5 st)
         \<and> published 4 2 (last [st_near]))
   \<and> unat ((4 :: uint) + (2 - of_nat 0 - 1)) = 5 \<and> unat ((4 :: uint) + (2 - of_nat 1 - 1)) = 4
   \<and> unat ((4 :: uint) + (2 - of_nat 2 - 1)) = 3 \<and> unat ((4 :: uint) + (2 - of_nat 3 - 1)) = 2
   \<and> length (prefixes st_near) = 9
   \<and> get_prefix 4 (\<lambda>ids. get_true 8 (\<lambda>block_id. 0) 4 ids [st_near]) last_nonzero 2
       = Some (Inr 5)"
proof -
  have h1: "\<forall>x y z. last_nonzero (last_nonzero x y) z = last_nonzero x (last_nonzero y z)"
    by (simp add: last_nonzero_def)
  have h2: "(8 :: nat) \<in> {1, 2, 4, 8}" by simp
  have h3: "(0::nat) < 2" by simp
  have h4: "2 < unat (4 :: uint)" by simp
  have h5: "2 < length rs5" by (simp add: rs5_def)
  have ps: "protocol_state 4 5 last_nonzero rs5 st_near" by code_simp
  have pub: "published 4 2 st_near" by code_simp
  have h6: "\<forall>ids :: uint list. [st_near] \<noteq> []
         \<and> (\<forall>st \<in> set [st_near]. protocol_state 4 5 last_nonzero rs5 st)
         \<and> published 4 2 (last [st_near])" using ps pub by simp
  have r1: "reference_scan last_nonzero rs5 2 = 5" by code_simp
  note inst = lookback_near_boundary [where mems = "\<lambda>_. [st_near]"
      and indeterminate = "\<lambda>block_id. 0", OF h1 h2 h3 h4 h5 h6]
  have c1: "unat ((4 :: uint) + (2 - of_nat 0 - 1)) = 5 \<and> unat ((4 :: uint) + (2 - of_nat 1 - 1)) = 4
      \<and> unat ((4 :: uint) + (2 - of_nat 2 - 1)) = 3 \<and> unat ((4 :: uint) + (2 - of_nat 3 - 1)) = 2"
    by simp
  have c3: "length (prefixes st_near) = 9" by (simp add: st_near_def)
  from inst have c2: "get_prefix 4 (\<lambda>ids. get_true 8 (\<lambda>block_id. 0) 4 ids [st_near]) last_nonzero 2
      = Some (Inr 5)"
    by (simp add: r1)
  from h1 h2 h3 h4 h5 h6 c1 c3 c2 show ?thesis by blast
qed

text \<open>
  C3, as stated, fails: Invalid does not stop the walk. With block 0 partial, block 1
  (below the warp size 2) sees Partial and Invalid in its first round, goes on, and its
  second round reads index \<open>2^32 - 1\<close> of an array of 7 entries.
\<close>

theorem block0_partial_near_boundary_counterexample:
  "get_prefix 2 (\<lambda>ids. get_true 8 (\<lambda>block_id. 0) 2 ids [st_all_partial]) last_nonzero 1
     = Some (Inl OutOfRange)
   \<and> unat (2 + ((1 :: uint) - of_nat 1 - 1 - 2)) = 4294967295
   \<and> \<not> 4294967295 < length (prefixes st_all_partial)
   \<and> reference_scan last_nonzero rs5 1 = 3"
proof -
  define G where "G = (\<lambda>ids. get_true 8 (\<lambda>block_id. 0 :: u64) 2 ids [st_all_partial])"
  have r0: "reduce_partial_prefixes G last_nonzero [0, - 1]
      = Some (Inr ([PREFIX_PARTIAL, PREFIX_INVALID], 3))"
    unfolding G_def by (simp add: round_eval st_all_partial_def)
  have r1: "reduce_partial_prefixes G last_nonzero [- 2, - 3] = Some (Inl OutOfRange)"
    unfolding G_def by (simp add: round_eval st_all_partial_def unat_m1)
  have w1: "get_prefix_while 2 G last_nonzero [0, - 1] [PREFIX_PARTIAL, PREFIX_INVALID] 3
      = Some (Inl OutOfRange)"
    by (subst get_prefix_while.simps) (simp add: warp_all_def r1)
  have ids: "map (\<lambda>lane_id. (1::uint) - of_nat lane_id - 1) [0..<unat (2::uint)] = [0, - 1]"
    by (simp add: upt_rec)
  have gp: "get_prefix 2 G last_nonzero 1 = Some (Inl OutOfRange)"
    unfolding get_prefix_def ids by (simp add: r0 w1)
  have i: "unat (2 + ((1 :: uint) - of_nat 1 - 1 - 2)) = 4294967295"
    using unat_m1 by simp
  have l: "\<not> 4294967295 < length (prefixes st_all_partial)" by (simp add: st_all_partial_def)
  have r: "reference_scan last_nonzero rs5 1 = 3" by code_simp
  from gp i l r show ?thesis unfolding G_def by blast
qed

subsection \<open>The flags along an execution\<close>

lemma slot_index:
  assumes "block_id < number_of_blocks" and "unat padding + unat number_of_blocks \<le> 2 ^ 32"
  shows "unat (padding + block_id) = unat padding + unat (block_id :: uint)"
proof -
  from assms(1) have "unat block_id < unat number_of_blocks" by (simp add: word_less_nat_alt)
  with assms(2) have "unat padding + unat block_id < 2 ^ 32" by simp
  then show ?thesis using unat_add_lem [of padding block_id] by simp
qed

lemma step_effect:
  assumes "step sizeof_T padding number_of_blocks (st, ph) (st', ph')"
  shows "\<exists>block_id v. block_id < number_of_blocks
      \<and> unat (padding + block_id) < length (prefixes st)
      \<and> ((ph block_id = Initialized \<and> ph' = ph(block_id := Published_partial)
           \<and> prefixes st' = (prefixes st)[unat (padding + block_id) := (PREFIX_PARTIAL, v)])
         \<or> (ph block_id = Published_partial \<and> ph' = ph(block_id := Published_complete)
           \<and> prefixes st' = (prefixes st)[unat (padding + block_id) := (PREFIX_COMPLETE, v)]))"
  using assms
proof cases
  case (publish_partial block_id junk v)
  then show ?thesis
    by (auto simp: set_partial_true_def set_true_Inr)
next
  case (publish_complete block_id junk v)
  then show ?thesis
    by (auto simp: set_complete_true_def set_true_Inr)
qed

lemma remdups_adj_hd: "xs \<noteq> [] \<Longrightarrow> hd (remdups_adj xs) = hd xs"
  by (cases xs rule: remdups_adj.cases) auto

lemma remdups_adj_push:
  "remdups_adj (x # y # ys) = (if x = y then remdups_adj (y # ys) else x # remdups_adj (y # ys))"
  by simp

lemma execution_invariant:
  assumes ex: "execution sizeof_T padding number_of_blocks cs"
    and bound: "unat padding + unat number_of_blocks \<le> 2 ^ 32"
  shows "cs \<noteq> []
     \<and> length (prefixes (fst (hd cs))) = unat padding + unat number_of_blocks
     \<and> (\<forall>c \<in> set cs. \<forall>i < unat padding. flag_at (fst c) i = PREFIX_INVALID)
     \<and> (\<forall>block_id. block_id < number_of_blocks \<longrightarrow>
           remdups_adj (map (\<lambda>c. flag_at (fst c) (unat (padding + block_id))) cs)
             = rev (flag_history (snd (hd cs) block_id)))"
  using ex
proof (induction rule: execution.induct)
  case (start st)
  then show ?case
    by (auto simp: initialized_def slot_index [OF _ bound] word_less_nat_alt)
next
  case (next_step c cs c')
  obtain st ph where c: "c = (st, ph)" by (cases c)
  obtain st' ph' where c': "c' = (st', ph')" by (cases c')
  from next_step.IH c have len: "length (prefixes st) = unat padding + unat number_of_blocks"
    and pad: "\<forall>d \<in> set (c # cs). \<forall>i < unat padding. flag_at (fst d) i = PREFIX_INVALID"
    and hist: "\<And>block_id. block_id < number_of_blocks \<Longrightarrow>
           remdups_adj (map (\<lambda>c. flag_at (fst c) (unat (padding + block_id))) (c # cs))
             = rev (flag_history (ph block_id))"
    by auto
  from step_effect [OF next_step.hyps(2) [unfolded c c']]
  obtain b0 v where b0: "b0 < number_of_blocks"
    and eff: "(ph b0 = Initialized \<and> ph' = ph(b0 := Published_partial)
           \<and> prefixes st' = (prefixes st)[unat (padding + b0) := (PREFIX_PARTIAL, v)])
         \<or> (ph b0 = Published_partial \<and> ph' = ph(b0 := Published_complete)
           \<and> prefixes st' = (prefixes st)[unat (padding + b0) := (PREFIX_COMPLETE, v)])"
    by blast
  note k0 = slot_index [OF b0 bound]
  from b0 have b0n: "unat b0 < unat number_of_blocks" by (simp add: word_less_nat_alt)
  with len have inr: "unat padding + unat b0 < length (prefixes st)" by simp
  from eff have len': "length (prefixes st') = unat padding + unat number_of_blocks"
    using len by auto
  have other: "\<And>k. k \<noteq> unat padding + unat b0 \<Longrightarrow> flag_at st' k = flag_at st k"
    using eff by (auto simp: flag_at_def k0)
  have pad': "\<forall>i < unat padding. flag_at st' i = PREFIX_INVALID"
    using pad other by (auto simp: c)
  have hist': "remdups_adj (map (\<lambda>c. flag_at (fst c) (unat (padding + block_id))) (c' # c # cs))
             = rev (flag_history (ph' block_id))" if b: "block_id < number_of_blocks" for block_id
  proof -
    let ?f = "\<lambda>c. flag_at (fst c) (unat (padding + block_id))"
    note k = slot_index [OF b bound]
    have old: "remdups_adj (?f c # map ?f cs) = rev (flag_history (ph block_id))"
      using hist [OF b] by simp
    from remdups_adj_hd [of "?f c # map ?f cs"] old
    have cur: "?f c = hd (rev (flag_history (ph block_id)))" by simp
    show ?thesis
    proof (cases "block_id = b0")
      case False
      then have "unat block_id \<noteq> unat b0" by (simp add: word_unat_eq_iff)
      then have "?f c' = ?f c" using other [of "unat padding + unat block_id"] by (simp add: c c' k)
      moreover from False eff have "ph' block_id = ph block_id" by auto
      ultimately show ?thesis using old by simp
    next
      case True
      have new: "?f c' = fst (prefixes st' ! (unat padding + unat b0))"
        by (simp add: c' flag_at_def True k0)
      from eff show ?thesis
      proof
        assume e: "ph b0 = Initialized \<and> ph' = ph(b0 := Published_partial)
           \<and> prefixes st' = (prefixes st)[unat (padding + b0) := (PREFIX_PARTIAL, v)]"
        with inr new have "?f c' = PREFIX_PARTIAL" by (simp add: k0)
        moreover from e cur True have "?f c = PREFIX_EMPTY" by simp
        ultimately show ?thesis using old e True by simp
      next
        assume e: "ph b0 = Published_partial \<and> ph' = ph(b0 := Published_complete)
           \<and> prefixes st' = (prefixes st)[unat (padding + b0) := (PREFIX_COMPLETE, v)]"
        with inr new have "?f c' = PREFIX_COMPLETE" by (simp add: k0)
        moreover from e cur True have "?f c = PREFIX_PARTIAL" by simp
        ultimately show ?thesis using old e True by simp
      qed
    qed
  qed
  from len' pad pad' hist' show ?case by (simp add: c c')
qed

lemma execution_steps:
  "execution sizeof_T padding number_of_blocks cs \<Longrightarrow> Suc k < length cs \<Longrightarrow>
   step sizeof_T padding number_of_blocks (cs ! Suc k) (cs ! k)"
proof (induction arbitrary: k rule: execution.induct)
  case (start st)
  then show ?case by simp
next
  case (next_step c cs c')
  then show ?case by (cases k) auto
qed

text \<open>
  C5, amended. Let \<open>padding + number_of_blocks \<le> 2^32\<close>. Along every execution from an
  initialised memory in which each block writes \<open>set_partial\<close> once and then
  \<open>set_complete\<close> once: a padding slot is Invalid in every configuration; the flags a
  real slot goes through are Empty, then Partial, then Complete, as far as its block has
  got; and every step writes exactly the slot of the block that takes it.
\<close>

theorem flag_sequences:
  assumes ex: "execution sizeof_T padding number_of_blocks cs"
    and bound: "unat padding + unat number_of_blocks \<le> 2 ^ 32"
  shows "(\<forall>c \<in> set cs. \<forall>i < unat padding. flag_at (fst c) i = PREFIX_INVALID)
     \<and> (\<forall>block_id < number_of_blocks.
           remdups_adj (map (\<lambda>c. flag_at (fst c) (unat (padding + block_id))) (rev cs))
             = flag_history (snd (hd cs) block_id))
     \<and> (\<forall>k. Suc k < length cs \<longrightarrow>
           (\<exists>block_id v. block_id < number_of_blocks
              \<and> ((snd (cs ! Suc k) block_id = Initialized
                   \<and> snd (cs ! k) = (snd (cs ! Suc k))(block_id := Published_partial)
                   \<and> prefixes (fst (cs ! k))
                       = (prefixes (fst (cs ! Suc k)))[unat (padding + block_id) := (PREFIX_PARTIAL, v)])
                 \<or> (snd (cs ! Suc k) block_id = Published_partial
                   \<and> snd (cs ! k) = (snd (cs ! Suc k))(block_id := Published_complete)
                   \<and> prefixes (fst (cs ! k))
                       = (prefixes (fst (cs ! Suc k)))[unat (padding + block_id) := (PREFIX_COMPLETE, v)]))))"
proof (intro conjI allI impI)
  note inv = execution_invariant [OF ex bound]
  from inv show "\<forall>c \<in> set cs. \<forall>i < unat padding. flag_at (fst c) i = PREFIX_INVALID" by blast
  fix block_id assume "block_id < number_of_blocks"
  with inv have "remdups_adj (map (\<lambda>c. flag_at (fst c) (unat (padding + block_id))) cs)
             = rev (flag_history (snd (hd cs) block_id))" by blast
  then have "rev (remdups_adj (map (\<lambda>c. flag_at (fst c) (unat (padding + block_id))) cs))
             = flag_history (snd (hd cs) block_id)" by simp
  then show "remdups_adj (map (\<lambda>c. flag_at (fst c) (unat (padding + block_id))) (rev cs))
             = flag_history (snd (hd cs) block_id)"
    by (simp only: rev_map [symmetric] remdups_adj_rev)
next
  fix k assume k: "Suc k < length cs"
  obtain st ph where c: "cs ! Suc k = (st, ph)" by (cases "cs ! Suc k")
  obtain st' ph' where c': "cs ! k = (st', ph')" by (cases "cs ! k")
  from execution_steps [OF ex k] have "step sizeof_T padding number_of_blocks (st, ph) (st', ph')"
    by (simp add: c c')
  from step_effect [OF this]
  show "\<exists>block_id v. block_id < number_of_blocks
              \<and> ((snd (cs ! Suc k) block_id = Initialized
                   \<and> snd (cs ! k) = (snd (cs ! Suc k))(block_id := Published_partial)
                   \<and> prefixes (fst (cs ! k))
                       = (prefixes (fst (cs ! Suc k)))[unat (padding + block_id) := (PREFIX_PARTIAL, v)])
                 \<or> (snd (cs ! Suc k) block_id = Published_partial
                   \<and> snd (cs ! k) = (snd (cs ! Suc k))(block_id := Published_complete)
                   \<and> prefixes (fst (cs ! k))
                       = (prefixes (fst (cs ! Suc k)))[unat (padding + block_id) := (PREFIX_COMPLETE, v)]))"
    unfolding c c' fst_conv snd_conv by blast
qed

theorem flag_sequences_witness:
  "execution 8 1 2 run_example
   \<and> unat (1 :: uint) + unat (2 :: uint) \<le> 2 ^ 32
   \<and> remdups_adj (map (\<lambda>c. flag_at (fst c) (unat (1 + 0 :: uint))) (rev run_example))
       = [PREFIX_EMPTY, PREFIX_PARTIAL, PREFIX_COMPLETE]
   \<and> remdups_adj (map (\<lambda>c. flag_at (fst c) (unat (1 + 1 :: uint))) (rev run_example))
       = [PREFIX_EMPTY, PREFIX_PARTIAL, PREFIX_COMPLETE]
   \<and> map (\<lambda>c. flag_at (fst c) 0) run_example
       = [PREFIX_INVALID, PREFIX_INVALID, PREFIX_INVALID, PREFIX_INVALID, PREFIX_INVALID]"
proof -
  have init: "initialized 1 2
      \<lparr>prefixes = [(PREFIX_INVALID, 0 :: u64), (PREFIX_EMPTY, 0), (PREFIX_EMPTY, 0)]\<rparr>"
    by code_simp
  have ex: "execution 8 1 2 run_example"
    unfolding run_example_def
    apply (rule execution.next_step)
     apply (rule execution.next_step)
      apply (rule execution.next_step)
       apply (rule execution.next_step)
        apply (rule execution.start)
        apply (rule init)
       apply (rule step.publish_partial [where v = 5 and junk = 0])
         apply (simp_all add: set_true_eval)[3]
      apply (rule step.publish_partial [where v = 7 and junk = 0])
        apply (simp_all add: set_true_eval)[3]
     apply (rule step.publish_complete [where v = 5 and junk = 0])
       apply (simp_all add: set_true_eval)[3]
    apply (rule step.publish_complete [where v = 12 and junk = 0])
      apply (simp_all add: set_true_eval)
    done
  have bound: "unat (1 :: uint) + unat (2 :: uint) \<le> 2 ^ 32" by simp
  note inst = flag_sequences [OF ex bound]
  have h: "snd (hd run_example) 0 = Published_complete" "snd (hd run_example) 1 = Published_complete"
    by (simp_all add: run_example_def)
  note hist = inst [THEN conjunct2, THEN conjunct1, rule_format]
  have "remdups_adj (map (\<lambda>c. flag_at (fst c) (unat (1 + 0 :: uint))) (rev run_example))
       = flag_history (snd (hd run_example) 0)" by (rule hist) simp
  then have c0: "remdups_adj (map (\<lambda>c. flag_at (fst c) (unat (1 + 0 :: uint))) (rev run_example))
       = [PREFIX_EMPTY, PREFIX_PARTIAL, PREFIX_COMPLETE]" by (simp only: h flag_history.simps)
  have "remdups_adj (map (\<lambda>c. flag_at (fst c) (unat (1 + 1 :: uint))) (rev run_example))
       = flag_history (snd (hd run_example) 1)" by (rule hist) simp
  then have c1: "remdups_adj (map (\<lambda>c. flag_at (fst c) (unat (1 + 1 :: uint))) (rev run_example))
       = [PREFIX_EMPTY, PREFIX_PARTIAL, PREFIX_COMPLETE]" by (simp only: h flag_history.simps)
  have p: "map (\<lambda>c. flag_at (fst c) 0) run_example
       = [PREFIX_INVALID, PREFIX_INVALID, PREFIX_INVALID, PREFIX_INVALID, PREFIX_INVALID]"
    by (simp add: run_example_def flag_at_def)
  from ex bound c0 c1 p show ?thesis by blast
qed

text \<open>
  C5, as stated, fails when \<open>padding + number_of_blocks\<close> exceeds \<open>2^32\<close>: the index
  \<open>padding + block_id\<close> wraps. With padding 2 and \<open>2^32 - 1\<close> blocks, the \<open>set_partial\<close> of
  block \<open>2^32 - 2\<close> writes entry 0, and the flag of that padding slot goes from Invalid to
  Partial.
\<close>

lemma initialized_replicate:
  "initialized padding n
     \<lparr>prefixes = replicate (unat padding) (PREFIX_INVALID, a) @ replicate (unat n) (PREFIX_EMPTY, b)\<rparr>"
  by (auto simp: initialized_def flag_at_def nth_append)

theorem wrapped_slot_counterexample:
  "\<not> unat (2 :: uint) + unat (- 1 :: uint) \<le> 2 ^ 32
   \<and> initialized 2 (- 1) wrapped_init
   \<and> (- 2 :: uint) < - 1
   \<and> unat ((2 :: uint) + - 2) = 0
   \<and> set_partial_true 8 0 2 (- 2) 7 wrapped_init = Inr (fst (hd wrapped_run))
   \<and> execution 8 2 (- 1) wrapped_run
   \<and> (0 :: nat) < unat (2 :: uint)
   \<and> map (\<lambda>c. flag_at (fst c) 0) wrapped_run = [PREFIX_PARTIAL, PREFIX_INVALID]"
proof -
  have n: "\<not> unat (2 :: uint) + unat (- 1 :: uint) \<le> 2 ^ 32" by (simp add: unat_m1)
  have init: "initialized 2 (- 1) wrapped_init"
    unfolding wrapped_init_def by (rule initialized_replicate)
  have lt: "(- 2 :: uint) < - 1" by (simp add: word_less_nat_alt unat_m1 unat_m2)
  have z: "unat ((2 :: uint) + - 2) = 0" by simp
  have len: "0 < length (prefixes wrapped_init)" by (simp add: wrapped_init_def)
  have wr: "set_partial_true 8 0 2 (- 2) 7 wrapped_init
      = Inr (wrapped_init\<lparr>prefixes := (prefixes wrapped_init)[0 := (PREFIX_PARTIAL, 7)]\<rparr>)"
    using len by (simp add: set_true_eval)
  then have wr': "set_partial_true 8 0 2 (- 2) 7 wrapped_init = Inr (fst (hd wrapped_run))"
    by (simp add: wrapped_run_def)
  have ex: "execution 8 2 (- 1) wrapped_run"
    unfolding wrapped_run_def
    apply (rule execution.next_step)
     apply (rule execution.start)
     apply (rule init)
    apply (rule step.publish_partial [where v = 7 and junk = 0])
      apply (rule lt)
     apply simp
    apply (rule wr)
    done
  have p: "(0 :: nat) < unat (2 :: uint)" by simp
  have f: "map (\<lambda>c. flag_at (fst c) 0) wrapped_run = [PREFIX_PARTIAL, PREFIX_INVALID]"
    using len by (simp add: wrapped_run_def flag_at_def) (simp add: wrapped_init_def nth_append)
  show ?thesis by (intro conjI) (rule n, rule init, rule lt, rule z, rule wr', rule ex, rule p, rule f)
qed

subsection \<open>The protocol's memory is an invariant\<close>

text \<open>
  The initialisation pass over the ids below \<open>max padding number_of_blocks\<close> leaves
  every real slot Empty and every padding slot Invalid, whatever memory held; that
  memory satisfies \<open>protocol_state\<close>, and the writes of the operator, and block 0's
  publication of its reduction as complete, keep it.
\<close>

lemma initialize_all_append:
  "initialize_all padding junk n (xs @ ys) st =
     (case initialize_all padding junk n xs st of
        Inl e \<Rightarrow> Inl e
      | Inr st1 \<Rightarrow> initialize_all padding junk n ys st1)"
  by (induction xs arbitrary: st) (auto split: sum.splits)

lemma unat_of_nat_small: "k < 2 ^ 32 \<Longrightarrow> unat (of_nat k :: uint) = k"
  by (simp add: unat_of_nat)

lemma initialize_all_prefix:
  assumes len: "length (prefixes st) = unat padding + unat n"
    and bound: "unat padding + unat n \<le> 2 ^ 32"
  shows "k \<le> max (unat padding) (unat n) \<Longrightarrow>
     \<exists>st'. initialize_all padding junk n (map of_nat [0..<k]) st = Inr st'
        \<and> length (prefixes st') = unat padding + unat n
        \<and> (\<forall>i < min k (unat padding). flag_at st' i = PREFIX_INVALID)
        \<and> (\<forall>j < min k (unat n). flag_at st' (unat padding + j) = PREFIX_EMPTY)"
proof (induction k)
  case 0
  then show ?case using len by simp
next
  case (Suc k)
  then have kmax: "k < max (unat padding) (unat n)" by simp
  with Suc.IH obtain st1 where
    run: "initialize_all padding junk n (map of_nat [0..<k]) st = Inr st1"
    and len1: "length (prefixes st1) = unat padding + unat n"
    and inv: "\<forall>i < min k (unat padding). flag_at st1 i = PREFIX_INVALID"
    and emp: "\<forall>j < min k (unat n). flag_at st1 (unat padding + j) = PREFIX_EMPTY"
    by auto
  from kmax bound have k32: "k < 2 ^ 32" by auto
  let ?id = "of_nat k :: uint"
  have uk: "unat ?id = k" using k32 by (rule unat_of_nat_small)
  have ltn: "?id < n \<longleftrightarrow> k < unat n" by (simp add: word_less_nat_alt uk)
  have ltp: "?id < padding \<longleftrightarrow> k < unat padding" by (simp add: word_less_nat_alt uk)
  have idx: "k < unat n \<Longrightarrow> unat (padding + ?id) = unat padding + k"
    using slot_index [of ?id n padding] bound by (simp add: ltn uk)
  define ps1 where "ps1 = (if ?id < n then (prefixes st1)[unat (padding + ?id) := (PREFIX_EMPTY, junk)]
                           else prefixes st1)"
  define ps2 where "ps2 = (if ?id < padding then ps1[unat ?id := (PREFIX_INVALID, junk)] else ps1)"
  have step: "initialize_prefix_true padding junk ?id n st1 = Inr (st1\<lparr>prefixes := ps2\<rparr>)"
    unfolding initialize_prefix_true_Inr ps2_def ps1_def Let_def
    using len1 idx by (auto simp: ltn ltp uk)
  have l2: "length ps2 = unat padding + unat n" by (simp add: ps2_def ps1_def len1)
  have i2: "fst (ps2 ! i) = PREFIX_INVALID" if "i < min (Suc k) (unat padding)" for i
  proof (cases "i = k")
    case True
    with that have "k < unat padding" by simp
    with True l2 show ?thesis by (simp add: ps2_def ltp uk ps1_def len1)
  next
    case False
    with that have ik: "i < min k (unat padding)" by simp
    then have "i < unat padding" by simp
    then have "i \<noteq> unat padding + k" by simp
    with ik inv False show ?thesis
      by (auto simp: ps2_def ps1_def uk idx ltn flag_at_def)
  qed
  have e2: "fst (ps2 ! (unat padding + j)) = PREFIX_EMPTY" if "j < min (Suc k) (unat n)" for j
  proof (cases "j = k")
    case True
    with that have kn: "k < unat n" by simp
    have "unat padding + k \<noteq> k \<or> \<not> k < unat padding" by auto
    with True kn len1 show ?thesis
      by (auto simp: ps2_def ps1_def uk idx ltn ltp)
  next
    case False
    with that have jk: "j < min k (unat n)" by simp
    have ne: "unat padding + j \<noteq> unat padding + k" using False by simp
    have "k < unat padding \<Longrightarrow> unat padding + j \<noteq> k" by simp
    with jk emp ne show ?thesis
      by (auto simp: ps2_def ps1_def uk idx ltn ltp flag_at_def)
  qed
  have "initialize_all padding junk n (map of_nat [0..<Suc k]) st = Inr (st1\<lparr>prefixes := ps2\<rparr>)"
    by (simp add: initialize_all_append run step)
  with l2 i2 e2 show ?case by (auto simp: flag_at_def)
qed

lemma initialize_all_initialized:
  assumes len: "length (prefixes st) = unat padding + unat n"
    and bound: "unat padding + unat n \<le> 2 ^ 32"
  shows "\<exists>st'. initialize_all padding junk n (map of_nat [0..<max (unat padding) (unat n)]) st = Inr st'
        \<and> initialized padding n st'"
  using initialize_all_prefix [OF len bound order_refl, of junk]
  by (auto simp: initialized_def)

lemma initialized_protocol_state:
  assumes init: "initialized padding n st" and len: "unat n = length rs"
    and bound: "unat padding + unat n \<le> 2 ^ 32"
  shows "protocol_state padding n scan_op rs st"
  unfolding protocol_state_def
proof (intro conjI ballI)
  show "length rs = unat n" using len by simp
next
  fix i assume "i \<in> set [0..<unat padding]"
  with init show "i < length (prefixes st)" by (simp add: initialized_def)
next
  fix i assume "i \<in> set [0..<unat padding]"
  with init show "fst (prefixes st ! i) = PREFIX_INVALID"
    by (simp add: initialized_def flag_at_def)
next
  fix j assume "j \<in> set [0..<unat n]"
  then have j: "j < unat n" by simp
  with bound have "unat padding + j < 2 ^ 32" by simp
  note idx = slot_index_nat [OF this]
  from init j show "unat (padding + of_nat j) < length (prefixes st)"
    unfolding idx by (simp add: initialized_def)
  from init j show "slot_ok scan_op rs j (prefixes st ! unat (padding + of_nat j))"
    unfolding idx by (simp add: initialized_def flag_at_def slot_ok_def)
qed

lemma protocol_state_update:
  assumes ps: "protocol_state padding n scan_op rs st"
    and b: "b < length rs" and ok: "slot_ok scan_op rs b p"
  shows "protocol_state padding n scan_op rs
           (st\<lparr>prefixes := (prefixes st)[unat padding + b := p]\<rparr>)"
  unfolding protocol_state_def
proof (intro conjI ballI)
  note len = protocol_stateD(1) [OF ps]
  note bound = protocol_state_no_wrap [OF ps]
  show "length rs = unat n" by (rule len)
  {
    fix i assume "i \<in> set [0..<unat padding]"
    then have i: "i < unat padding" by simp
    then have ne: "i \<noteq> unat padding + b" by simp
    from protocol_stateD(2) [OF ps i]
    show "i < length (prefixes (st\<lparr>prefixes := (prefixes st)[unat padding + b := p]\<rparr>))"
      by simp
    from protocol_stateD(2) [OF ps i] ne
    show "fst (prefixes (st\<lparr>prefixes := (prefixes st)[unat padding + b := p]\<rparr>) ! i) = PREFIX_INVALID"
      by simp
  }
  fix j assume "j \<in> set [0..<unat n]"
  then have j: "j < length rs" using len by simp
  with bound len have "unat padding + j < 2 ^ 32" by simp
  note idx = slot_index_nat [OF this]
  from protocol_stateD(3) [OF ps j]
  show "unat (padding + of_nat j)
      < length (prefixes (st\<lparr>prefixes := (prefixes st)[unat padding + b := p]\<rparr>))"
    unfolding idx by simp
  show "slot_ok scan_op rs j
      (prefixes (st\<lparr>prefixes := (prefixes st)[unat padding + b := p]\<rparr>)
         ! unat (padding + of_nat j))"
    unfolding idx
  proof (cases "j = b")
    case True
    with ok protocol_stateD(3) [OF ps j] show "slot_ok scan_op rs j
      (prefixes (st\<lparr>prefixes := (prefixes st)[unat padding + b := p]\<rparr>) ! (unat padding + j))"
      by simp
  next
    case False
    with protocol_stateD(3) [OF ps j] show "slot_ok scan_op rs j
      (prefixes (st\<lparr>prefixes := (prefixes st)[unat padding + b := p]\<rparr>) ! (unat padding + j))"
      by simp
  qed
qed

lemma prefix_op_preserves_protocol_state:
  assumes ps: "protocol_state padding n scan_op rs st"
    and b: "0 < b" "b < length rs"
  shows "protocol_state padding n scan_op rs
           (st\<lparr>prefixes := (prefixes st)[unat padding + b := (PREFIX_PARTIAL, rs ! b)]\<rparr>)"
    and "protocol_state padding n scan_op rs
           (st\<lparr>prefixes := (prefixes st)[unat padding + b :=
                (PREFIX_COMPLETE, scan_op (reference_scan scan_op rs b) (rs ! b))]\<rparr>)"
proof -
  from b show "protocol_state padding n scan_op rs
           (st\<lparr>prefixes := (prefixes st)[unat padding + b := (PREFIX_PARTIAL, rs ! b)]\<rparr>)"
    by (intro protocol_state_update [OF ps]) (simp_all add: slot_ok_def)
  have "reference_scan scan_op rs (Suc b) = scan_op (reference_scan scan_op rs b) (rs ! b)"
    using b(1) by (simp add: reference_scan_def segment_snoc)
  with b show "protocol_state padding n scan_op rs
           (st\<lparr>prefixes := (prefixes st)[unat padding + b :=
                (PREFIX_COMPLETE, scan_op (reference_scan scan_op rs b) (rs ! b))]\<rparr>)"
    by (intro protocol_state_update [OF ps]) (simp_all add: slot_ok_def)
qed

lemma block0_complete_preserves_protocol_state:
  assumes ps: "protocol_state padding n scan_op rs st" and n: "0 < length rs"
  shows "protocol_state padding n scan_op rs
           (st\<lparr>prefixes := (prefixes st)[unat padding + 0 := (PREFIX_COMPLETE, rs ! 0)]\<rparr>)"
  using n by (intro protocol_state_update [OF ps]) (simp_all add: slot_ok_def reference_scan_def segment_single)

end
